theory Spec2Isabelle
  imports Complex_Main "HOL-Library.Word"
begin

unbundle bit_operations_syntax

section \<open>Modelling conventions\<close>

text \<open>
  The development embeds the receipt compositor and the ESC/POS encoder of
  \<^verbatim>\<open>print-server.js\<close>.

  \<^item> A JavaScript string that is written to the spool file with
    \<^verbatim>\<open>Buffer.from(s, 'binary')\<close> is a \<^typ>\<open>string\<close>: one \<^typ>\<open>char\<close> (a byte)
    per code unit. \<^verbatim>\<open>String.fromCharCode(n)\<close> is \<^term>\<open>char_of n\<close>.
  \<^item> A \<^verbatim>\<open>Uint8Array\<close> is an \<^typ>\<open>8 word list\<close>.
  \<^item> In the command builders the operands of \<^verbatim>\<open>&\<close> and \<^verbatim>\<open>>>\<close> are
    converted to 32-bit integers first, as JavaScript does: they are \<^typ>\<open>32 word\<close>,
    and \<^verbatim>\<open>>>\<close> is the sign-propagating shift \<^const>\<open>signed_drop_bit\<close>.
    Pixel coordinates are below \<open>2\<^sup>3\<^sup>1\<close>, where the conversion changes nothing, and
    are natural numbers.
  \<^item> Other JavaScript numbers are exact rationals (\<^typ>\<open>rat\<close>): the rounding of
    IEEE doubles is not part of the model, and neither is the exponent notation that
    number formatting switches to at \<open>10\<^sup>2\<^sup>1\<close>.
\<close>

section \<open>Raster image command\<close>

type_synonym byte = "8 word"

text \<open>\<^verbatim>\<open>bytesToBinaryString\<close>: one character per byte, with the byte's value as its code.\<close>

definition bytesToBinaryString :: "byte list \<Rightarrow> string" where
  "bytesToBinaryString byteArray = map (\<lambda>b. char_of (unat b)) byteArray"

text \<open>
  \<^verbatim>\<open>buildRasterImageCommand(bitmapBytesPerRow, height, rasterData, mode = 0)\<close>.
  The header array is stored into a \<^verbatim>\<open>Uint8Array\<close>, which keeps the low 8 bits of
  each element (\<^const>\<open>ucast\<close>).
\<close>

definition buildRasterImageCommand :: "nat \<Rightarrow> nat \<Rightarrow> byte list \<Rightarrow> nat \<Rightarrow> string" where
  "buildRasterImageCommand bitmapBytesPerRow height rasterData mode =
     (let xL = (word_of_nat bitmapBytesPerRow :: 32 word) AND 0xff;
          xH = signed_drop_bit 8 (word_of_nat bitmapBytesPerRow :: 32 word) AND 0xff;
          yL = (word_of_nat height :: 32 word) AND 0xff;
          yH = signed_drop_bit 8 (word_of_nat height :: 32 word) AND 0xff;
          header = [0x1d, 0x76, 0x30, word_of_nat mode, ucast xL, ucast xH, ucast yL, ucast yH]
      in bytesToBinaryString (header @ rasterData))"

section \<open>Raster encoder\<close>

text \<open>\<^verbatim>\<open>image.bitmap\<close> of Jimp: the decoded RGBA buffer, 4 bytes per pixel, row-major.\<close>

record bitmap =
  width :: nat
  height :: nat
  data :: "byte list"

text \<open>
  \<^verbatim>\<open>data[i] / 255\<close>. A read past the end of the buffer is \<^verbatim>\<open>undefined\<close>, and
  \<^verbatim>\<open>undefined / 255\<close> is \<^verbatim>\<open>NaN\<close>: \<^const>\<open>None\<close>.
\<close>

definition channel :: "byte list \<Rightarrow> nat \<Rightarrow> rat option" where
  "channel dat i = (if i < length dat then Some (of_nat (unat (dat ! i)) / 255) else None)"

definition threshold :: rat where
  "threshold = 5 / 10"

text \<open>\<^verbatim>\<open>lum\<close> of the inner loop, on channel values already scaled to \<open>[0, 1]\<close>.\<close>

definition lum :: "rat \<Rightarrow> rat \<Rightarrow> rat \<Rightarrow> rat" where
  "lum r g b = 2126 / 10000 * r + 7152 / 10000 * g + 722 / 10000 * b"

text \<open>
  \<^verbatim>\<open>isBlack\<close> for the pixel whose first byte is at \<open>idx\<close>. Every comparison with
  \<^verbatim>\<open>NaN\<close> is false.
\<close>

definition isBlack :: "byte list \<Rightarrow> nat \<Rightarrow> bool" where
  "isBlack dat idx =
     (case (channel dat idx, channel dat (idx + 1), channel dat (idx + 2), channel dat (idx + 3)) of
        (Some r, Some g, Some b, Some a) \<Rightarrow> 1 - lum r g b > threshold \<and> a > 1 / 10
      | _ \<Rightarrow> False)"

text \<open>\<^verbatim>\<open>Math.ceil(width / 8)\<close>.\<close>

definition bytesPerRow :: "nat \<Rightarrow> nat" where
  "bytesPerRow w = nat \<lceil>(of_nat w :: rat) / 8\<rceil>"

text \<open>
  The body of the inner loop at pixel \<open>(x, y)\<close>. A store past the end of a typed array
  is ignored, as a list update past the end is.
\<close>

definition plot :: "byte list \<Rightarrow> nat \<Rightarrow> nat \<Rightarrow> nat \<Rightarrow> nat \<Rightarrow> byte list \<Rightarrow> byte list" where
  "plot dat w bpr y x raster =
     (let idx = (y * w + x) * 4;
          byteIndex = y * bpr + drop_bit 3 x;
          bitno = 7 - (x AND 7)
      in if isBlack dat idx
         then raster[byteIndex := (raster ! byteIndex) OR push_bit bitno 1]
         else raster)"

text \<open>
  The two nested loops over \<^verbatim>\<open>new Uint8Array(bytesPerRow * height)\<close>, which starts
  as zeros.
\<close>

definition packRaster :: "bitmap \<Rightarrow> byte list" where
  "packRaster bm =
     fold (\<lambda>y. fold (plot (data bm) (width bm) (bytesPerRow (width bm)) y) [0..<width bm])
       [0..<height bm]
       (replicate (bytesPerRow (width bm) * height bm) 0)"

text \<open>
  The encoder as it ends in \<^verbatim>\<open>buildLogoRasterString\<close>,
  \<^verbatim>\<open>buildGPSRouteRasterString\<close> and the photo loop: pack, then frame.
\<close>

definition rasterEncode :: "bitmap \<Rightarrow> string" where
  "rasterEncode bm = buildRasterImageCommand (bytesPerRow (width bm)) (height bm) (packRaster bm) 0"

section \<open>Control codes and layout helpers\<close>

definition ESC :: char where
  "ESC = CHR 0x1B"

definition GS :: char where
  "GS = CHR 0x1D"

definition ALIGN_LEFT :: string where
  "ALIGN_LEFT = [ESC, CHR ''a'', char_of (0 :: nat)]"

definition ALIGN_CENTER :: string where
  "ALIGN_CENTER = [ESC, CHR ''a'', char_of (1 :: nat)]"

definition SECTION_BREAK :: string where
  "SECTION_BREAK = ''<<<SECTION>>>''"

text \<open>
  \<^verbatim>\<open>s.padStart(n, c)\<close> and \<^verbatim>\<open>s.padEnd(n, c)\<close> with a one-character filler: a string
  that already has \<open>n\<close> characters is returned as it is.
\<close>

definition padStart :: "string \<Rightarrow> nat \<Rightarrow> char \<Rightarrow> string" where
  "padStart s n c = replicate (n - length s) c @ s"

definition padEnd :: "string \<Rightarrow> nat \<Rightarrow> char \<Rightarrow> string" where
  "padEnd s n c = s @ replicate (n - length s) c"

text \<open>The default value of the parameter \<^verbatim>\<open>widths\<close> of \<^verbatim>\<open>threeCol\<close>.\<close>

definition defaultWidths :: "nat \<times> nat \<times> nat" where
  "defaultWidths = (8, 24, 12)"

text \<open>\<^verbatim>\<open>threeCol(col1, col2, col3, widths = [8, 24, 12])\<close>; the filler is a space.\<close>

definition threeCol :: "string \<Rightarrow> string \<Rightarrow> string \<Rightarrow> nat \<times> nat \<times> nat \<Rightarrow> string" where
  "threeCol col1 col2 col3 widths =
     (case widths of (w1, w2, w3) \<Rightarrow>
        let c1 = padStart col1 w1 CHR '' '';
            c2 = padEnd col2 w2 CHR '' '';
            c3 = padStart col3 w3 CHR '' ''
        in c1 @ '' '' @ c2 @ '' '' @ c3)"

section \<open>QR payload framer\<close>

text \<open>
  \<^verbatim>\<open>buildEpsonQR(data, moduleSize = 5, ecLevel = '1')\<close>. The argument \<open>dat\<close> is the
  UTF-8 encoding of \<^verbatim>\<open>String(data)\<close>, which
  \<^verbatim>\<open>Buffer.from(.., 'utf8').toString('binary')\<close> turns into one character per byte, so
  \<^verbatim>\<open>payload.length\<close> is the number of bytes.
\<close>

definition buildEpsonQR :: "string \<Rightarrow> nat \<Rightarrow> string \<Rightarrow> string" where
  "buildEpsonQR dat moduleSize ecLevel =
     (let payload = dat;
          pL = char_of (unat ((word_of_nat (length payload + 3) :: 32 word) AND 0xff));
          pH = char_of (unat (signed_drop_bit 8 (word_of_nat (length payload + 3) :: 32 word) AND 0xff));
          model = [GS] @ ''(k'' @ [CHR 0x04, CHR 0x00, CHR 0x31, CHR 0x41, CHR 0x32, CHR 0x00];
          size = [GS] @ ''(k'' @ [CHR 0x03, CHR 0x00, CHR 0x31, CHR 0x43] @ [char_of moduleSize];
          ec = [GS] @ ''(k'' @ [CHR 0x03, CHR 0x00, CHR 0x31, CHR 0x45] @ ecLevel;
          store = [GS] @ ''(k'' @ [pL] @ [pH] @ [CHR 0x31, CHR 0x50, CHR 0x30] @ payload;
          print = [GS] @ ''(k'' @ [CHR 0x03, CHR 0x00, CHR 0x31, CHR 0x51, CHR 0x30]
      in model @ size @ ec @ store @ print)"

section \<open>Numeric formatting\<close>

text \<open>Decimal digits of a natural number and of an integer, as \<^verbatim>\<open>String(n)\<close> writes them.\<close>

definition digit :: "nat \<Rightarrow> char" where
  "digit d = char_of (48 + d)"

function natToString :: "nat \<Rightarrow> string" where
  "natToString n =
     (if n < 10 then [digit n]
      else natToString (n div 10) @ [digit (n mod 10)])"
  by pat_completeness auto
termination
  by (relation "measure id") auto

declare natToString.simps [simp del]

definition intToString :: "int \<Rightarrow> string" where
  "intToString i = (if i < 0 then ''-'' @ natToString (nat (- i)) else natToString (nat i))"

text \<open>
  \<^verbatim>\<open>x.toFixed(f)\<close>, following the steps of the language definition: the sign is split
  off, \<open>n\<close> is the integer with \<open>n / 10\<^sup>f\<close> nearest to \<open>x\<close> (the larger one of two),
  its digits are padded with zeros to \<open>f + 1\<close> places, and the point goes before the
  last \<open>f\<close> digits.
\<close>

definition toFixed :: "rat \<Rightarrow> nat \<Rightarrow> string" where
  "toFixed x f =
     (let s = (if x < 0 then ''-'' else '''');
          x' = (if x < 0 then - x else x);
          n = nat \<lfloor>x' * 10 ^ f + 1 / 2\<rfloor>;
          m = natToString n;
          m' = (if f \<noteq> 0
                then let m0 = (if length m \<le> f then replicate (f + 1 - length m) CHR ''0'' @ m else m);
                         k = length m0
                     in take (k - f) m0 @ ''.'' @ drop (k - f) m0
                else m)
      in s @ m')"

text \<open>\<^verbatim>\<open>Math.round\<close>: the nearest integer, the larger one of two.\<close>

definition Math_round :: "rat \<Rightarrow> int" where
  "Math_round x = \<lfloor>x + 1 / 2\<rfloor>"

definition metersToMiles :: "rat \<Rightarrow> rat" where
  "metersToMiles meters = meters * (621371 / 1000000000)"

text \<open>
  The numeric fields of the activity that the compositor reads. A field that is missing
  in the request is \<^const>\<open>None\<close>.
\<close>

record activity =
  distance :: "rat option"
  moving_time :: "rat option"
  elapsed_time :: "rat option"
  average_heartrate :: "rat option"
  total_elevation_gain :: "rat option"

text \<open>A number, or \<^verbatim>\<open>undefined\<close>, in a condition: \<^verbatim>\<open>undefined\<close> and 0 are falsy.\<close>

fun truthyNum :: "rat option \<Rightarrow> bool" where
  "truthyNum None = False"
| "truthyNum (Some x) = (x \<noteq> 0)"

text \<open>\<^verbatim>\<open>activity.distance ? metersToMiles(activity.distance) : 0\<close>\<close>

definition distanceMiles :: "activity \<Rightarrow> rat" where
  "distanceMiles a = (if truthyNum (distance a) then metersToMiles (the (distance a)) else 0)"

text \<open>\<^verbatim>\<open>activity.moving_time || activity.elapsed_time\<close>\<close>

definition movingTime :: "activity \<Rightarrow> rat option" where
  "movingTime a = (if truthyNum (moving_time a) then moving_time a else elapsed_time a)"

definition paceStr :: "activity \<Rightarrow> string" where
  "paceStr a =
     (if distanceMiles a > 0 \<and> truthyNum (movingTime a)
      then let paceMinutes = the (movingTime a) / 60 / distanceMiles a;
               paceMin = \<lfloor>paceMinutes\<rfloor>;
               paceSec = Math_round ((paceMinutes - of_int paceMin) * 60)
           in intToString paceMin @ '':'' @ padStart (intToString paceSec) 2 CHR ''0'' @ '' min/mi''
      else ''N/A'')"

definition heartRate :: "activity \<Rightarrow> string" where
  "heartRate a =
     (if truthyNum (average_heartrate a)
      then intToString (Math_round (the (average_heartrate a))) @ '' bpm''
      else ''N/A'')"

definition elevationGain :: "activity \<Rightarrow> string" where
  "elevationGain a =
     (if truthyNum (total_elevation_gain a)
      then intToString (Math_round (the (total_elevation_gain a) * (328084 / 100000))) @ '' ft''
      else ''N/A'')"

text \<open>The third column of the stat line and of the totals line: \<^verbatim>\<open>distanceMiles.toFixed(2)\<close>.\<close>

definition distanceStr :: "activity \<Rightarrow> string" where
  "distanceStr a = toFixed (distanceMiles a) 2"

section \<open>Route renderer\<close>

record RoutePoint =
  lat :: rat
  lng :: rat

text \<open>
  The value of an arithmetic expression: a finite number, an infinity or \<^verbatim>\<open>NaN\<close>.
  Coordinates of route points are finite; a quotient need not be.
\<close>

datatype jsnum = Fin rat | PosInf | NegInf | NaN

text \<open>\<^verbatim>\<open>a / b\<close> for finite \<open>a\<close> and \<open>b\<close>: \<open>0 / 0\<close> is \<^verbatim>\<open>NaN\<close>.\<close>

definition js_div :: "rat \<Rightarrow> rat \<Rightarrow> jsnum" where
  "js_div a b =
     (if b \<noteq> 0 then Fin (a / b)
      else if a = 0 then NaN
      else if 0 < a then PosInf else NegInf)"

text \<open>\<^verbatim>\<open>v * c\<close> for a positive constant \<open>c\<close>, and \<^verbatim>\<open>c - v\<close>.\<close>

fun js_times :: "jsnum \<Rightarrow> rat \<Rightarrow> jsnum" where
  "js_times (Fin a) c = Fin (a * c)"
| "js_times PosInf c = PosInf"
| "js_times NegInf c = NegInf"
| "js_times NaN c = NaN"

fun js_minus_from :: "rat \<Rightarrow> jsnum \<Rightarrow> jsnum" where
  "js_minus_from c (Fin a) = Fin (c - a)"
| "js_minus_from c PosInf = NegInf"
| "js_minus_from c NegInf = PosInf"
| "js_minus_from c NaN = NaN"

text \<open>The body of the first \<^verbatim>\<open>route.forEach\<close>, on \<open>(minLat, maxLat, minLng, maxLng)\<close>.\<close>

definition boundsStep :: "RoutePoint \<Rightarrow> rat \<times> rat \<times> rat \<times> rat \<Rightarrow> rat \<times> rat \<times> rat \<times> rat" where
  "boundsStep point b =
     (case b of (minLat, maxLat, minLng, maxLng) \<Rightarrow>
        (min minLat (lat point), max maxLat (lat point),
         min minLng (lng point), max maxLng (lng point)))"

text \<open>
  The bounding box, started at \<^verbatim>\<open>route[0]\<close> and expanded by the padding. The function
  is called on routes of at least two points only.
\<close>

definition paddedBounds :: "RoutePoint list \<Rightarrow> rat \<times> rat \<times> rat \<times> rat" where
  "paddedBounds route =
     (case fold boundsStep route
             (lat (hd route), lat (hd route), lng (hd route), lng (hd route)) of
        (minLat, maxLat, minLng, maxLng) \<Rightarrow>
          let latRange = maxLat - minLat;
              lngRange = maxLng - minLng;
              padding = max latRange lngRange * (1 / 10)
          in (minLat - padding, maxLat + padding, minLng - padding, maxLng + padding))"

definition svgWidth :: rat where
  "svgWidth = 400"

definition svgHeight :: rat where
  "svgHeight = 300"

text \<open>The body of the second \<^verbatim>\<open>route.forEach\<close>: the point's \<open>(x, y)\<close> on the canvas.\<close>

definition projectPoint :: "rat \<times> rat \<times> rat \<times> rat \<Rightarrow> RoutePoint \<Rightarrow> jsnum \<times> jsnum" where
  "projectPoint b point =
     (case b of (minLat, maxLat, minLng, maxLng) \<Rightarrow>
        let x = js_times (js_div (lng point - minLng) (maxLng - minLng)) svgWidth;
            y = js_minus_from svgHeight (js_times (js_div (lat point - minLat) (maxLat - minLat)) svgHeight)
        in (x, y))"

text \<open>
  \<^verbatim>\<open>pathData\<close>: the coordinates in order; the first is written after \<open>M\<close>, the others
  after \<open>L\<close>.
\<close>

definition pathData :: "RoutePoint list \<Rightarrow> (jsnum \<times> jsnum) list" where
  "pathData route = map (projectPoint (paddedBounds route)) route"

text \<open>
  What \<^verbatim>\<open>buildGPSRouteRasterString\<close> finds around it. \<open>sharpModule\<close> and
  \<open>jimpModule\<close> say whether the libraries were loaded. \<open>rasterize\<close> stands for the
  steps between the path data and the bitmap handed to the encoder (the SVG file,
  \<^verbatim>\<open>sharp(..).png()\<close>, \<^verbatim>\<open>Jimp.read\<close>, resize to the maximal width, greyscale,
  contrast), done by libraries outside the repository: \<^const>\<open>None\<close> when one of them
  throws.
\<close>

record renderEnv =
  sharpModule :: bool
  jimpModule :: bool
  rasterize :: "(jsnum \<times> jsnum) list \<Rightarrow> nat \<Rightarrow> bitmap option"

text \<open>
  \<^verbatim>\<open>buildGPSRouteRasterString(route, maxWidth = 512)\<close>; a route that is
  \<^verbatim>\<open>null\<close> is \<^const>\<open>None\<close>. Routes are arrays of points with both coordinates, so the
  checks of \<^verbatim>\<open>Array.isArray\<close> and of \<^verbatim>\<open>route[0].lat\<close> pass. Every exception inside
  is caught and gives the empty string.
\<close>

definition buildGPSRouteRasterString :: "renderEnv \<Rightarrow> RoutePoint list option \<Rightarrow> nat \<Rightarrow> string" where
  "buildGPSRouteRasterString env route maxWidth =
     (case route of
        None \<Rightarrow> ''''
      | Some pts \<Rightarrow>
          if length pts < 2 then ''''
          else if \<not> sharpModule env \<or> \<not> jimpModule env then ''''
          else (case rasterize env (pathData pts) maxWidth of
                  None \<Rightarrow> ''''
                | Some bm \<Rightarrow> rasterEncode bm))"

text \<open>The fragments that the compositor pushes for the route, after the section title.\<close>

definition routePlaceholder :: "string list" where
  "routePlaceholder = [ALIGN_CENTER, ''[Route visualization]'' @ [CHR 0x0A]]"

definition routeSection :: "renderEnv \<Rightarrow> RoutePoint list option \<Rightarrow> string list" where
  "routeSection env route =
     (if route \<noteq> None \<and> length (the route) > 1
      then let routeRaster = buildGPSRouteRasterString env route 512
           in if routeRaster \<noteq> [] \<and> length routeRaster > 0
              then [ALIGN_CENTER, routeRaster, ALIGN_LEFT, [CHR 0x0A]]
              else routePlaceholder
      else routePlaceholder)"

section \<open>Transmission scheduler\<close>

datatype printMode = off | fast | medium | slow

fun SLOW_PRINT_DELAYS :: "printMode \<Rightarrow> nat" where
  "SLOW_PRINT_DELAYS off = 0"
| "SLOW_PRINT_DELAYS fast = 50"
| "SLOW_PRINT_DELAYS medium = 150"
| "SLOW_PRINT_DELAYS slow = 300"

definition SLOW_PRINT_MODE :: printMode where
  "SLOW_PRINT_MODE = slow"

text \<open>
  \<^verbatim>\<open>s.split(sep)\<close> for a non-empty separator: the pieces between the occurrences of
  \<open>sep\<close>, found from the left. \<open>skip\<close> counts the characters of a separator still to
  pass, \<open>acc\<close> holds the current piece reversed.
\<close>

fun splitAux :: "string \<Rightarrow> nat \<Rightarrow> string \<Rightarrow> string \<Rightarrow> string list" where
  "splitAux sep skip acc [] = [rev acc]"
| "splitAux sep skip acc (c # cs) =
     (if 0 < skip then splitAux sep (skip - 1) acc cs
      else if take (length sep) (c # cs) = sep then rev acc # splitAux sep (length sep - 1) [] cs
      else splitAux sep 0 (c # acc) cs)"

definition split :: "string \<Rightarrow> string \<Rightarrow> string list" where
  "split sep s = splitAux sep 0 [] s"

text \<open>\<^verbatim>\<open>fullContent.split(SECTION_BREAK).filter(s => s.length > 0)\<close>\<close>

definition sectionsOf :: "string \<Rightarrow> string list" where
  "sectionsOf fullContent = filter (\<lambda>s. length s > 0) (split SECTION_BREAK fullContent)"

text \<open>
  What a print job meets outside the program, per section index: whether
  \<^verbatim>\<open>fs.writeFileSync\<close> throws, whether the callback of \<^verbatim>\<open>exec\<close> receives an error,
  how many milliseconds pass between the call of \<^verbatim>\<open>exec\<close> and its callback, and by how
  many milliseconds the callback of \<^verbatim>\<open>setTimeout\<close> runs after its delay has passed.
\<close>

record lpEnv =
  writeThrows :: "nat \<Rightarrow> bool"
  lpFails :: "nat \<Rightarrow> bool"
  lpTime :: "nat \<Rightarrow> nat"
  timerLag :: "nat \<Rightarrow> nat"

text \<open>
  What a job does, in order: a submission (the call of \<^verbatim>\<open>exec\<close>) with its time in
  milliseconds, the index of the section and the bytes of the spool file, and the
  lines logged.
\<close>

datatype event =
    Submit nat nat string
  | LogError nat
  | LogSent nat
  | LogAllPrinted
  | Rejected nat

text \<open>
  \<^verbatim>\<open>printSection(index)\<close>, called at time \<open>now\<close>. The next call is made by the timer
  that the callback of \<^verbatim>\<open>exec\<close> sets, whether the callback received an error or not.
  An exception of \<^verbatim>\<open>fs.writeFileSync\<close> rejects the promise of the call, which
  nothing awaits: the chain ends.
\<close>

function printSection :: "lpEnv \<Rightarrow> string list \<Rightarrow> nat \<Rightarrow> nat \<Rightarrow> nat \<Rightarrow> event list" where
  "printSection env sections printDelay index now =
     (if index \<ge> length sections then [LogAllPrinted]
      else if writeThrows env index then [Rejected index]
      else Submit now index (sections ! index)
           # (if lpFails env index then LogError index else LogSent index)
           # printSection env sections printDelay (index + 1)
               (now + lpTime env index + printDelay + timerLag env index))"
  by pat_completeness auto
termination
  by (relation "measure (\<lambda>(env, sections, printDelay, index, now). length sections - index)") auto

declare printSection.simps [simp del]

text \<open>
  The end of \<^verbatim>\<open>createAndPrintActivityReceipt\<close>: paced transmission when the delay is
  positive and there is more than one section, else one spool file with the markers
  removed. The mode is a parameter here; the program fixes it to
  \<^const>\<open>SLOW_PRINT_MODE\<close>.
\<close>

definition transmit :: "lpEnv \<Rightarrow> printMode \<Rightarrow> string \<Rightarrow> nat \<Rightarrow> event list" where
  "transmit env mode fullContent now =
     (let sections = sectionsOf fullContent;
          printDelay = SLOW_PRINT_DELAYS mode
      in if printDelay > 0 \<and> length sections > 1
         then printSection env sections printDelay 0 now
         else if writeThrows env 0 then [Rejected 0]
         else [Submit now 0 (concat (split SECTION_BREAK fullContent)),
               if lpFails env 0 then LogError 0 else LogSent 0])"

text \<open>The submissions of a job: time, section index and bytes of each call of \<^verbatim>\<open>exec\<close>.\<close>

fun submissions :: "event list \<Rightarrow> (nat \<times> nat \<times> string) list" where
  "submissions [] = []"
| "submissions (Submit t i c # es) = (t, i, c) # submissions es"
| "submissions (e # es) = submissions es"

text \<open>
  What a job hands to the printer queue: the bytes of its spool files, in the order
  in which they are submitted with \<^verbatim>\<open>lp -o raw\<close>.
\<close>

definition submittedBytes :: "event list \<Rightarrow> string" where
  "submittedBytes es = concat (map (\<lambda>s. snd (snd s)) (submissions es))"

section \<open>Print service\<close>

datatype json =
    JNull
  | JBool bool
  | JNum rat
  | JStr string
  | JArr "json list"
  | JObj "(string \<times> json) list"

text \<open>A statement or call either completes or throws an exception with a message.\<close>

datatype 'a outcome = Returned 'a | Threw string

text \<open>A value, or \<^verbatim>\<open>undefined\<close>, in a condition.\<close>

fun truthy :: "json option \<Rightarrow> bool" where
  "truthy None = False"
| "truthy (Some JNull) = False"
| "truthy (Some (JBool b)) = b"
| "truthy (Some (JNum n)) = (n \<noteq> 0)"
| "truthy (Some (JStr s)) = (s \<noteq> [])"
| "truthy (Some (JArr xs)) = True"
| "truthy (Some (JObj fs)) = True"

text \<open>
  Reading the member \<open>k\<close> of a value that is not \<^verbatim>\<open>null\<close>: an object gives the member
  or \<^verbatim>\<open>undefined\<close>, and a number, string, boolean or array has no member of the names
  read here (\<open>activity\<close>, \<open>route\<close>, \<open>photos\<close>, \<open>name\<close>, \<open>id\<close>). An object lists each key
  once.
\<close>

fun member :: "json \<Rightarrow> string \<Rightarrow> json option" where
  "member (JObj fs) k = map_of fs k"
| "member v k = None"

text \<open>
  Reading the member \<open>k\<close> in \<^verbatim>\<open>const { activity, route, photos } = data\<close>:
  destructuring \<^verbatim>\<open>null\<close> throws a \<^verbatim>\<open>TypeError\<close>.
\<close>

fun getProp :: "json \<Rightarrow> string \<Rightarrow> json option outcome" where
  "getProp JNull k = Threw ''Cannot destructure property of null''"
| "getProp v k = Returned (member v k)"

text \<open>
  Whether the conversion of a value to a string, as in a template literal, throws.
  \<^verbatim>\<open>JSON.parse\<close> builds plain objects and arrays. An object without a member
  \<open>toString\<close> becomes \<open>[object Object]\<close>; with one, which is never a function, neither
  it nor \<open>valueOf\<close> yields a primitive value and the conversion throws a
  \<^verbatim>\<open>TypeError\<close>. An array converts its elements and joins them.
\<close>

fun toStringThrows :: "json \<Rightarrow> bool" where
  "toStringThrows (JObj fs) = (map_of fs ''toString'' \<noteq> None)"
| "toStringThrows (JArr xs) = (\<exists>x \<in> set xs. toStringThrows x)"
| "toStringThrows v = False"

text \<open>
  The line that logs the request,
  \<^verbatim>\<open>console.log(`... ${activity.name || activity.id}`)\<close>: whether it throws.
\<close>

definition requestLabel :: "json \<Rightarrow> json option" where
  "requestLabel activity =
     (if truthy (member activity ''name'') then member activity ''name'' else member activity ''id'')"

definition logThrows :: "json \<Rightarrow> bool" where
  "logThrows activity = (case requestLabel activity of None \<Rightarrow> False | Some v \<Rightarrow> toStringThrows v)"

text \<open>
  \<^verbatim>\<open>createAndPrintActivityReceipt\<close>: its whole body is one \<^verbatim>\<open>try\<close> block, whose
  \<^verbatim>\<open>catch\<close> logs the error. \<open>tryBlock\<close> is the outcome of the statements inside, from
  composition to the start of transmission.
\<close>

definition createAndPrintActivityReceipt ::
    "(json \<Rightarrow> json option \<Rightarrow> json option \<Rightarrow> unit outcome) \<Rightarrow> json \<Rightarrow> json option \<Rightarrow> json option
     \<Rightarrow> unit outcome" where
  "createAndPrintActivityReceipt tryBlock activity route photos =
     (case tryBlock activity route photos of
        Returned u \<Rightarrow> Returned ()
      | Threw msg \<Rightarrow> Returned ())"

record response =
  status :: nat
  body :: json

text \<open>\<^verbatim>\<open>x || null\<close>\<close>

definition orNull :: "json option \<Rightarrow> json option" where
  "orNull x = (if truthy x then x else Some JNull)"

text \<open>
  The handler of \<^verbatim>\<open>POST /print\<close>, from the end of the request body on. \<open>parsed\<close> is
  the outcome of \<^verbatim>\<open>JSON.parse(body)\<close>. Every exception inside the handler's
  \<^verbatim>\<open>try\<close> block is answered with status 500 and its message.
\<close>

definition handlePrint ::
    "(json \<Rightarrow> json option \<Rightarrow> json option \<Rightarrow> unit outcome) \<Rightarrow> json outcome \<Rightarrow> response" where
  "handlePrint tryBlock parsed =
     (case parsed of
        Threw msg \<Rightarrow> \<lparr>status = 500, body = JObj [(''error'', JStr msg)]\<rparr>
      | Returned dat \<Rightarrow>
          (case (getProp dat ''activity'', getProp dat ''route'', getProp dat ''photos'') of
             (Returned activity, Returned route, Returned photos) \<Rightarrow>
               if \<not> truthy activity
               then \<lparr>status = 400, body = JObj [(''error'', JStr ''Activity data is required'')]\<rparr>
               else if logThrows (the activity)
               then \<lparr>status = 500,
                     body = JObj [(''error'', JStr ''Cannot convert object to primitive value'')]\<rparr>
               else (case createAndPrintActivityReceipt tryBlock (the activity) (orNull route) (orNull photos) of
                       Returned u \<Rightarrow>
                         \<lparr>status = 200,
                          body = JObj [(''success'', JBool True), (''message'', JStr ''Print job sent'')]\<rparr>
                     | Threw msg \<Rightarrow> \<lparr>status = 500, body = JObj [(''error'', JStr msg)]\<rparr>)
           | (Threw msg, _, _) \<Rightarrow> \<lparr>status = 500, body = JObj [(''error'', JStr msg)]\<rparr>
           | (_, Threw msg, _) \<Rightarrow> \<lparr>status = 500, body = JObj [(''error'', JStr msg)]\<rparr>
           | (_, _, Threw msg) \<Rightarrow> \<lparr>status = 500, body = JObj [(''error'', JStr msg)]\<rparr>))"

section \<open>Verification: the raster encoder\<close>

subsection \<open>Bytes of the header\<close>

lemma mask8: "(0xff :: 32 word) = mask 8"
  by (simp add: mask_eq_exp_minus_1)

lemma low_byte_w: "(ucast ((word_of_nat n :: 32 word) AND 0xff) :: byte) = word_of_nat n"
  unfolding mask8
  by (rule bit_word_eqI) (auto simp: bit_simps)

lemma high_byte_w:
  "(ucast (signed_drop_bit 8 (word_of_nat n :: 32 word) AND 0xff) :: byte) = word_of_nat (n div 256)"
proof -
  have d: "n div 256 = drop_bit 8 n"
    by (simp add: drop_bit_eq_div)
  show ?thesis
    unfolding mask8 d
    by (rule bit_word_eqI) (auto simp: bit_simps)
qed

lemma unat8: "unat (word_of_nat n :: byte) = n mod 256"
  by (simp add: unat_of_nat)

lemma le16: "n mod 256 + 256 * (n div 256 mod 256) = n mod 65536" for n :: nat
proof -
  have "n mod (256 * 256) = 256 * (n div 256 mod 256) + n mod 256"
    by (rule mod_mult2_eq)
  thus ?thesis by simp
qed

subsection \<open>The packing loops\<close>

lemma and7: "(x::nat) AND 7 = x mod 8"
proof -
  have m: "(7::nat) = mask 3" by (simp add: mask_eq_exp_minus_1)
  have "x AND 7 = x AND mask 3" by (simp only: m)
  also have "\<dots> = take_bit 3 x" by (simp only: take_bit_eq_mask)
  also have "\<dots> = x mod 8" by (simp add: take_bit_eq_mod)
  finally show ?thesis .
qed

lemma drop3: "drop_bit 3 (x::nat) = x div 8"
  by (simp add: drop_bit_eq_div)

lemma bit_one_hot: "bit (push_bit b 1 :: byte) k \<longleftrightarrow> k = b \<and> b < 8"
  by (auto simp: bit_simps)

lemma plot_unfold:
  "plot dat w bpr y x raster =
     (if isBlack dat ((y * w + x) * 4)
      then raster[y * bpr + x div 8 := (raster ! (y * bpr + x div 8)) OR push_bit (7 - x mod 8) 1]
      else raster)"
  by (simp only: plot_def Let_def and7 drop3)

lemma length_plot: "length (plot dat w bpr y x raster) = length raster"
  by (simp add: plot_unfold)

lemma bit_plot:
  assumes "i < length raster"
  shows "bit (plot dat w bpr y x raster ! i) k \<longleftrightarrow>
         bit (raster ! i) k \<or> (isBlack dat ((y * w + x) * 4) \<and> i = y * bpr + x div 8 \<and> k = 7 - x mod 8)"
proof (cases "isBlack dat ((y * w + x) * 4)")
  case False
  thus ?thesis by (simp add: plot_unfold)
next
  case True
  show ?thesis
  proof (cases "i = y * bpr + x div 8")
    case eq: True
    have "7 - x mod 8 < 8" by simp
    hence "bit (push_bit (7 - x mod 8) 1 :: byte) k \<longleftrightarrow> k = 7 - x mod 8"
      by (simp only: bit_one_hot simp_thms)
    with True eq assms show ?thesis
      by (simp only: plot_unfold if_True nth_list_update_eq bit_or_iff simp_thms)
  next
    case False
    with True assms show ?thesis
      by (simp add: plot_unfold)
  qed
qed

lemma length_fold_plot: "length (fold (plot dat w bpr y) xs raster) = length raster"
  by (induction xs arbitrary: raster) (simp_all add: length_plot)

lemma bit_fold_plot:
  assumes "i < length raster"
  shows "bit (fold (plot dat w bpr y) xs raster ! i) k \<longleftrightarrow>
         bit (raster ! i) k \<or>
         (\<exists>x \<in> set xs. isBlack dat ((y * w + x) * 4) \<and> i = y * bpr + x div 8 \<and> k = 7 - x mod 8)"
  using assms
proof (induction xs arbitrary: raster)
  case Nil
  show ?case by simp
next
  case (Cons x xs)
  have "i < length (plot dat w bpr y x raster)"
    using Cons.prems by (simp add: length_plot)
  from Cons.IH [OF this] bit_plot [OF Cons.prems, of dat w bpr y x k]
  show ?case by auto
qed

lemma length_rows:
  "length (fold (\<lambda>y. fold (plot dat w bpr y) xs) ys raster) = length raster"
  by (induction ys arbitrary: raster) (simp_all add: length_fold_plot)

lemma bit_rows:
  assumes "i < length raster"
  shows "bit (fold (\<lambda>y. fold (plot dat w bpr y) xs) ys raster ! i) k \<longleftrightarrow>
         bit (raster ! i) k \<or>
         (\<exists>y \<in> set ys. \<exists>x \<in> set xs.
            isBlack dat ((y * w + x) * 4) \<and> i = y * bpr + x div 8 \<and> k = 7 - x mod 8)"
  using assms
proof (induction ys arbitrary: raster)
  case Nil
  show ?case by simp
next
  case (Cons y ys)
  have "i < length (fold (plot dat w bpr y) xs raster)"
    using Cons.prems by (simp add: length_fold_plot)
  from Cons.IH [OF this] bit_fold_plot [OF Cons.prems, of dat w bpr y xs k]
  show ?case by auto
qed

lemma bytesPerRow_div: "bytesPerRow w = (w + 7) div 8"
proof -
  have "\<lceil>(of_nat w :: rat) / 8\<rceil> = int ((w + 7) div 8)"
  proof (rule ceiling_unique)
    have "w \<le> 8 * ((w + 7) div 8)" by presburger
    hence "(of_nat w :: rat) \<le> of_nat (8 * ((w + 7) div 8))" by (simp only: of_nat_le_iff)
    thus "(of_nat w :: rat) / 8 \<le> of_int (int ((w + 7) div 8))" by simp
    have "8 * ((w + 7) div 8) < w + 8" by presburger
    hence "(of_nat (8 * ((w + 7) div 8)) :: rat) < of_nat (w + 8)" by (simp only: of_nat_less_iff)
    thus "of_int (int ((w + 7) div 8)) - 1 < (of_nat w :: rat) / 8" by simp
  qed
  thus ?thesis by (simp add: bytesPerRow_def)
qed

lemma length_packRaster: "length (packRaster bm) = bytesPerRow (width bm) * height bm"
  by (simp add: packRaster_def length_rows)

lemma index_decomp:
  fixes bpr :: nat
  assumes "j < bpr"
  shows "(y * bpr + j) div bpr = y" and "(y * bpr + j) mod bpr = j"
  using assms by simp_all

lemma packRaster_bit:
  assumes i: "i < bytesPerRow (width bm) * height bm"
  shows "bit (packRaster bm ! i) k \<longleftrightarrow>
         k < 8 \<and> 8 * (i mod bytesPerRow (width bm)) + (7 - k) < width bm \<and>
         isBlack (data bm)
           ((i div bytesPerRow (width bm) * width bm + (8 * (i mod bytesPerRow (width bm)) + (7 - k))) * 4)"
    (is "?L \<longleftrightarrow> ?R")
proof -
  let ?bpr = "bytesPerRow (width bm)"
  let ?w = "width bm"
  let ?h = "height bm"
  have bpr8: "?w \<le> 8 * ?bpr"
    unfolding bytesPerRow_div by presburger
  have bpr_pos: "0 < ?bpr" using i by (cases "?bpr = 0") simp_all
  have z: "\<not> bit (replicate (?bpr * ?h) (0 :: byte) ! i) k"
    using i by simp
  have L: "?L \<longleftrightarrow> (\<exists>y \<in> set [0..<?h]. \<exists>x \<in> set [0..<?w].
            isBlack (data bm) ((y * ?w + x) * 4) \<and> i = y * ?bpr + x div 8 \<and> k = 7 - x mod 8)"
    unfolding packRaster_def
    using bit_rows [of i "replicate (?bpr * ?h) 0" "data bm" ?w ?bpr "[0..<?w]" "[0..<?h]" k] i z
    by (simp only: length_replicate simp_thms)
  show ?thesis
  proof
    assume ?L
    then obtain y x where yx: "y < ?h" "x < ?w" "isBlack (data bm) ((y * ?w + x) * 4)"
        "i = y * ?bpr + x div 8" "k = 7 - x mod 8"
      unfolding L by auto
    have "x div 8 < ?bpr" using yx(2) bpr8 by simp
    hence d: "i div ?bpr = y" "i mod ?bpr = x div 8"
      unfolding yx(4) by (rule index_decomp)+
    have x: "8 * (x div 8) + (7 - k) = x" unfolding yx(5) by presburger
    have "k < 8" unfolding yx(5) by simp
    with yx(2,3) show ?R
      unfolding d x by simp
  next
    assume R: ?R
    define y where "y = i div ?bpr"
    define x where "x = 8 * (i mod ?bpr) + (7 - k)"
    from R have k: "k < 8" by (rule conjunct1)
    from R have xw: "x < ?w" unfolding x_def by (elim conjE)
    from R have blk: "isBlack (data bm) ((y * ?w + x) * 4)" unfolding x_def y_def by (elim conjE)
    have yh: "y < ?h" unfolding y_def using bpr_pos i
      by (simp add: less_mult_imp_div_less mult.commute)
    have xd: "x div 8 = i mod ?bpr" unfolding x_def using k by simp
    have "x mod 8 = 7 - k" unfolding x_def by simp
    hence xm: "7 - x mod 8 = k" using k by simp
    have "i = y * ?bpr + x div 8" unfolding xd y_def by simp
    with yh xw blk xm show ?L unfolding L by (intro bexI [of _ y] bexI [of _ x]) simp_all
  qed
qed

subsection \<open>The framed command\<close>

lemma buildRasterImageCommand_bytes:
  "buildRasterImageCommand bpr h payload m =
     bytesToBinaryString
       ([0x1d, 0x76, 0x30, word_of_nat m, word_of_nat bpr, word_of_nat (bpr div 256),
         word_of_nat h, word_of_nat (h div 256)] @ payload)"
  by (simp only: buildRasterImageCommand_def Let_def low_byte_w high_byte_w)

lemma header_chars:
  "char_of (0x1d :: nat) = CHR 0x1D"
  "char_of (0x76 :: nat) = CHR ''v''"
  "char_of (0x30 :: nat) = CHR ''0''"
  by code_simp+

lemma binary_string_verbatim:
  "map (\<lambda>c. word_of_nat (of_char c)) (bytesToBinaryString bs) = bs"
proof -
  have "(word_of_nat (of_char (char_of (unat b) :: char)) :: byte) = b" for b :: byte
  proof -
    have "unat b < 256" using unsigned_less [of b] by simp
    thus ?thesis by simp
  qed
  thus ?thesis by (simp add: bytesToBinaryString_def comp_def)
qed

lemma buildRasterImageCommand_chars:
  "buildRasterImageCommand bpr h payload m =
     [CHR 0x1D, CHR ''v'', CHR ''0'', char_of m,
      char_of (bpr mod 256), char_of (bpr div 256 mod 256),
      char_of (h mod 256), char_of (h div 256 mod 256)]
     @ bytesToBinaryString payload"
  unfolding buildRasterImageCommand_bytes
  by (simp add: bytesToBinaryString_def unat8 header_chars)

subsection \<open>Pixels, padding and blank rasters\<close>

lemma pixel_byte_index:
  assumes "y < height bm" "x < width bm"
  shows "y * bytesPerRow (width bm) + x div 8 < bytesPerRow (width bm) * height bm"
    and "(y * bytesPerRow (width bm) + x div 8) div bytesPerRow (width bm) = y"
    and "(y * bytesPerRow (width bm) + x div 8) mod bytesPerRow (width bm) = x div 8"
proof -
  let ?bpr = "bytesPerRow (width bm)"
  have "width bm \<le> 8 * ?bpr" unfolding bytesPerRow_div by presburger
  hence j: "x div 8 < ?bpr" using assms(2) by simp
  have "y * ?bpr + x div 8 < y * ?bpr + ?bpr" using j by simp
  also have "\<dots> = (Suc y) * ?bpr" by simp
  also have "\<dots> \<le> height bm * ?bpr"
    using assms(1) by (intro mult_le_mono1) simp
  finally show "y * ?bpr + x div 8 < ?bpr * height bm" by (simp add: mult.commute)
  show "(y * ?bpr + x div 8) div ?bpr = y" "(y * ?bpr + x div 8) mod ?bpr = x div 8"
    using j by (rule index_decomp)+
qed

lemma pixel_bit:
  assumes "y < height bm" "x < width bm"
  shows "bit (packRaster bm ! (y * bytesPerRow (width bm) + x div 8)) (7 - x mod 8)
         \<longleftrightarrow> isBlack (data bm) ((y * width bm + x) * 4)"
proof -
  have x: "8 * (x div 8) + (7 - (7 - x mod 8)) = x" by presburger
  have k: "7 - x mod 8 < 8" by simp
  show ?thesis
    unfolding packRaster_bit [OF pixel_byte_index(1) [OF assms]] pixel_byte_index(2,3) [OF assms] x
    using assms(2) k by simp
qed

lemma padding_bit:
  assumes "y < height bm" "width bm \<le> x" "x < 8 * bytesPerRow (width bm)"
  shows "\<not> bit (packRaster bm ! (y * bytesPerRow (width bm) + x div 8)) (7 - x mod 8)"
proof -
  let ?bpr = "bytesPerRow (width bm)"
  have j: "x div 8 < ?bpr" using assms(3) by simp
  have "y * ?bpr + x div 8 < y * ?bpr + ?bpr" using j by simp
  also have "\<dots> = (Suc y) * ?bpr" by simp
  also have "\<dots> \<le> height bm * ?bpr"
    using assms(1) by (intro mult_le_mono1) simp
  finally have i: "y * ?bpr + x div 8 < ?bpr * height bm" by (simp add: mult.commute)
  have d: "(y * ?bpr + x div 8) mod ?bpr = x div 8"
    using j by (rule index_decomp)
  have x: "8 * (x div 8) + (7 - (7 - x mod 8)) = x" by presburger
  show ?thesis
    unfolding packRaster_bit [OF i] d x using assms(2) by simp
qed

lemma packRaster_zero:
  assumes "\<And>y x. y < height bm \<Longrightarrow> x < width bm \<Longrightarrow> \<not> isBlack (data bm) ((y * width bm + x) * 4)"
  shows "packRaster bm = replicate (bytesPerRow (width bm) * height bm) 0"
proof (rule nth_equalityI)
  show "length (packRaster bm) = length (replicate (bytesPerRow (width bm) * height bm) (0 :: byte))"
    by (simp add: length_packRaster)
next
  fix i assume "i < length (packRaster bm)"
  hence i: "i < bytesPerRow (width bm) * height bm" by (simp add: length_packRaster)
  let ?bpr = "bytesPerRow (width bm)"
  have bpr_pos: "0 < ?bpr" using i by (cases "?bpr = 0") simp_all
  have yh: "i div ?bpr < height bm" using bpr_pos i
    by (simp add: less_mult_imp_div_less mult.commute)
  have "\<not> bit (packRaster bm ! i) k" for k
    unfolding packRaster_bit [OF i] using assms [OF yh] by blast
  hence "packRaster bm ! i = 0" by (simp add: bit_eq_iff)
  thus "packRaster bm ! i = replicate (bytesPerRow (width bm) * height bm) 0 ! i"
    using i by simp
qed

lemma bytesPerRow_ceiling: "width bm \<le> 8 * bytesPerRow (width bm) \<and> 8 * bytesPerRow (width bm) < width bm + 8"
  unfolding bytesPerRow_div by presburger

lemma length_rasterEncode: "length (rasterEncode bm) = 8 + bytesPerRow (width bm) * height bm"
  unfolding rasterEncode_def buildRasterImageCommand_chars
  by (simp add: bytesToBinaryString_def length_packRaster)

subsection \<open>The ink predicate\<close>

lemma isBlack_iff:
  assumes "idx + 3 < length dat"
  shows "isBlack dat idx \<longleftrightarrow>
           1 - lum (of_nat (unat (dat ! idx)) / 255) (of_nat (unat (dat ! (idx + 1))) / 255)
                   (of_nat (unat (dat ! (idx + 2))) / 255) > 1 / 2
           \<and> (of_nat (unat (dat ! (idx + 3))) / 255 :: rat) > 1 / 10"
  using assms by (simp add: isBlack_def channel_def threshold_def)

lemma isBlack_white:
  assumes "idx < length dat \<Longrightarrow> dat ! idx = 255"
    and "idx + 1 < length dat \<Longrightarrow> dat ! (idx + 1) = 255"
    and "idx + 2 < length dat \<Longrightarrow> dat ! (idx + 2) = 255"
  shows "\<not> isBlack dat idx"
  using assms by (auto simp: isBlack_def channel_def threshold_def lum_def split: option.splits if_splits)

lemma isBlack_transparent:
  assumes "idx + 3 < length dat \<Longrightarrow> dat ! (idx + 3) = 0"
  shows "\<not> isBlack dat idx"
  using assms by (auto simp: isBlack_def channel_def split: option.splits if_splits)

lemma isBlack_black:
  assumes "idx + 3 < length dat" "dat ! idx = 0" "dat ! (idx + 1) = 0" "dat ! (idx + 2) = 0"
    "dat ! (idx + 3) = 255"
  shows "isBlack dat idx"
  using assms by (simp add: isBlack_iff lum_def)

lemma pixel_index:
  fixes w h :: nat
  assumes "y < h" "x < w"
  shows "y * w + x < w * h"
proof -
  have "y * w + x < y * w + w" using assms(2) by simp
  also have "\<dots> = Suc y * w" by simp
  also have "\<dots> \<le> h * w" using assms(1) by (intro mult_le_mono1) simp
  finally show ?thesis by (simp add: mult.commute)
qed

text \<open>
  Claim C1. For every decoded RGBA buffer (in particular for width and height at least
  1) the encoder produces \<open>bytesPerRow = \<lceil>width / 8\<rceil>\<close> bytes per row, the least number
  of bytes that holds \<open>width\<close> bits, and a payload of \<open>bytesPerRow * height\<close> bytes,
  which the command extends by its 8 header bytes. The pixel \<open>(x, y)\<close> is bit
  \<open>7 - x mod 8\<close> of byte \<open>y * bytesPerRow + x div 8\<close>: row-major, most significant
  bit first, set exactly when the pixel is ink. The bits of a row's last byte that lie
  beyond \<open>width\<close> are 0.
\<close>

theorem raster_encoder_packing:
  "bytesPerRow (width bm) = (width bm + 7) div 8
   \<and> width bm \<le> 8 * bytesPerRow (width bm) \<and> 8 * bytesPerRow (width bm) < width bm + 8
   \<and> length (packRaster bm) = bytesPerRow (width bm) * height bm
   \<and> length (rasterEncode bm) = 8 + bytesPerRow (width bm) * height bm
   \<and> (\<forall>y < height bm. \<forall>x < width bm.
        bit (packRaster bm ! (y * bytesPerRow (width bm) + x div 8)) (7 - x mod 8)
        \<longleftrightarrow> isBlack (data bm) ((y * width bm + x) * 4))
   \<and> (\<forall>y < height bm. \<forall>x. width bm \<le> x \<and> x < 8 * bytesPerRow (width bm) \<longrightarrow>
        \<not> bit (packRaster bm ! (y * bytesPerRow (width bm) + x div 8)) (7 - x mod 8))"
  using bytesPerRow_div [of "width bm"] bytesPerRow_ceiling [of bm] length_packRaster [of bm]
    length_rasterEncode [of bm] pixel_bit [of _ bm] padding_bit [of _ bm]
  by blast

theorem raster_encoder_packing_witness:
  "bytesPerRow 3 = 1
   \<and> length (packRaster \<lparr>width = 3, height = 1,
        data = [0, 0, 0, 255,  255, 255, 255, 255,  0, 0, 0, 0]\<rparr>) = 1
   \<and> bit (packRaster \<lparr>width = 3, height = 1,
        data = [0, 0, 0, 255,  255, 255, 255, 255,  0, 0, 0, 0]\<rparr> ! 0) 7
   \<and> \<not> bit (packRaster \<lparr>width = 3, height = 1,
        data = [0, 0, 0, 255,  255, 255, 255, 255,  0, 0, 0, 0]\<rparr> ! 0) 6
   \<and> \<not> bit (packRaster \<lparr>width = 3, height = 1,
        data = [0, 0, 0, 255,  255, 255, 255, 255,  0, 0, 0, 0]\<rparr> ! 0) 4"
proof -
  let ?bm = "\<lparr>width = 3, height = 1, data = [0, 0, 0, 255,  255, 255, 255, 255,  0, 0, 0, 0 :: byte]\<rparr>"
  note T = raster_encoder_packing [of ?bm]
  from T have b: "bytesPerRow 3 = 1" by simp
  from T have l: "length (packRaster ?bm) = 1" by (simp add: b)
  from T have pix: "x < 3 \<Longrightarrow> bit (packRaster ?bm ! (x div 8)) (7 - x mod 8)
        \<longleftrightarrow> isBlack (data ?bm) (x * 4)" for x
    by (simp add: b)
  from T have pad: "3 \<le> x \<Longrightarrow> x < 8 \<Longrightarrow> \<not> bit (packRaster ?bm ! (x div 8)) (7 - x mod 8)" for x
    by (simp add: b)
  have p0: "bit (packRaster ?bm ! 0) 7"
    using pix [of 0] by (simp add: isBlack_def channel_def lum_def threshold_def)
  have p1: "\<not> bit (packRaster ?bm ! 0) 6"
    using pix [of 1] by (simp add: isBlack_def channel_def lum_def threshold_def)
  have p3: "\<not> bit (packRaster ?bm ! 0) 4"
    using pad [of 3] by simp
  from b l p0 p1 p3 show ?thesis by blast
qed

text \<open>
  Claim C2. For every pixel inside the buffer, its bit is 1 exactly when
  \<open>1 - luminance > 0.5\<close> and the scaled alpha exceeds \<open>0.1\<close>, where
  \<open>luminance = 0.2126 R + 0.7152 G + 0.0722 B\<close> on channel values divided by 255.
  Hence an all-white image gives an all-zero raster, an all-black opaque image has
  every used bit set, and an image whose alpha is 0 everywhere gives an all-zero raster
  whatever its colours.
\<close>

theorem raster_encoder_threshold:
  "(\<forall>y < height bm. \<forall>x < width bm.
      (y * width bm + x) * 4 + 3 < length (data bm) \<longrightarrow>
      (bit (packRaster bm ! (y * bytesPerRow (width bm) + x div 8)) (7 - x mod 8)
       \<longleftrightarrow> (1 :: rat) - (2126 / 10000 * (of_nat (unat (data bm ! ((y * width bm + x) * 4))) / 255)
                 + 7152 / 10000 * (of_nat (unat (data bm ! ((y * width bm + x) * 4 + 1))) / 255)
                 + 722 / 10000 * (of_nat (unat (data bm ! ((y * width bm + x) * 4 + 2))) / 255)) > 1 / 2
           \<and> (of_nat (unat (data bm ! ((y * width bm + x) * 4 + 3))) / 255 :: rat) > 1 / 10))
   \<and> ((\<forall>i < length (data bm). data bm ! i = 255) \<longrightarrow>
        packRaster bm = replicate (bytesPerRow (width bm) * height bm) 0)
   \<and> (length (data bm) = width bm * height bm * 4 \<and>
       (\<forall>p < width bm * height bm.
          data bm ! (p * 4) = 0 \<and> data bm ! (p * 4 + 1) = 0 \<and> data bm ! (p * 4 + 2) = 0
          \<and> data bm ! (p * 4 + 3) = 255) \<longrightarrow>
       (\<forall>y < height bm. \<forall>x < width bm.
          bit (packRaster bm ! (y * bytesPerRow (width bm) + x div 8)) (7 - x mod 8)))
   \<and> ((\<forall>p. p * 4 + 3 < length (data bm) \<longrightarrow> data bm ! (p * 4 + 3) = 0) \<longrightarrow>
        packRaster bm = replicate (bytesPerRow (width bm) * height bm) 0)"
proof (intro conjI allI impI)
  fix y x assume "y < height bm" "x < width bm" "(y * width bm + x) * 4 + 3 < length (data bm)"
  thus "bit (packRaster bm ! (y * bytesPerRow (width bm) + x div 8)) (7 - x mod 8)
       \<longleftrightarrow> (1 :: rat) - (2126 / 10000 * (of_nat (unat (data bm ! ((y * width bm + x) * 4))) / 255)
                 + 7152 / 10000 * (of_nat (unat (data bm ! ((y * width bm + x) * 4 + 1))) / 255)
                 + 722 / 10000 * (of_nat (unat (data bm ! ((y * width bm + x) * 4 + 2))) / 255)) > 1 / 2
           \<and> (of_nat (unat (data bm ! ((y * width bm + x) * 4 + 3))) / 255 :: rat) > 1 / 10"
    by (simp only: pixel_bit isBlack_iff lum_def)
next
  assume white: "\<forall>i < length (data bm). data bm ! i = 255"
  show "packRaster bm = replicate (bytesPerRow (width bm) * height bm) 0"
    by (rule packRaster_zero, rule isBlack_white) (simp_all add: white)
next
  fix y x
  assume blk: "length (data bm) = width bm * height bm * 4 \<and>
       (\<forall>p < width bm * height bm.
          data bm ! (p * 4) = 0 \<and> data bm ! (p * 4 + 1) = 0 \<and> data bm ! (p * 4 + 2) = 0
          \<and> data bm ! (p * 4 + 3) = 255)"
    and yx: "y < height bm" "x < width bm"
  have p: "y * width bm + x < width bm * height bm"
    using yx by (rule pixel_index)
  hence r: "(y * width bm + x) * 4 + 3 < length (data bm)" using blk by simp
  from blk p have d: "data bm ! ((y * width bm + x) * 4) = 0"
    "data bm ! ((y * width bm + x) * 4 + 1) = 0"
    "data bm ! ((y * width bm + x) * 4 + 2) = 0"
    "data bm ! ((y * width bm + x) * 4 + 3) = 255"
    by blast+
  from r d have "isBlack (data bm) ((y * width bm + x) * 4)"
    by (rule isBlack_black)
  thus "bit (packRaster bm ! (y * bytesPerRow (width bm) + x div 8)) (7 - x mod 8)"
    by (simp only: pixel_bit [OF yx])
next
  assume tr: "\<forall>p. p * 4 + 3 < length (data bm) \<longrightarrow> data bm ! (p * 4 + 3) = 0"
  show "packRaster bm = replicate (bytesPerRow (width bm) * height bm) 0"
  proof (rule packRaster_zero, rule isBlack_transparent)
    fix y x assume "(y * width bm + x) * 4 + 3 < length (data bm)"
    with tr show "data bm ! ((y * width bm + x) * 4 + 3) = 0" by blast
  qed
qed

text \<open>
  One-pixel images: white, black, transparent, and the three primaries. Red and blue
  are dark enough to be ink, green is not: the weights decide.
\<close>

theorem raster_encoder_threshold_witness:
  "packRaster \<lparr>width = 1, height = 1, data = replicate 4 255\<rparr> = [0]
   \<and> bit (packRaster \<lparr>width = 1, height = 1, data = [0, 0, 0, 255]\<rparr> ! 0) 7
   \<and> packRaster \<lparr>width = 1, height = 1, data = [12, 200, 7, 0]\<rparr> = [0]
   \<and> bit (packRaster \<lparr>width = 1, height = 1, data = [255, 0, 0, 255]\<rparr> ! 0) 7
   \<and> \<not> bit (packRaster \<lparr>width = 1, height = 1, data = [0, 255, 0, 255]\<rparr> ! 0) 7
   \<and> bit (packRaster \<lparr>width = 1, height = 1, data = [0, 0, 255, 255]\<rparr> ! 0) 7"
proof -
  have b: "bytesPerRow (Suc 0) = Suc 0" by (simp add: bytesPerRow_div)
  let ?white = "\<lparr>width = 1, height = 1, data = replicate 4 (255 :: byte)\<rparr>"
  let ?black = "\<lparr>width = 1, height = 1, data = [0, 0, 0, 255 :: byte]\<rparr>"
  let ?clear = "\<lparr>width = 1, height = 1, data = [12, 200, 7, 0 :: byte]\<rparr>"
  let ?red = "\<lparr>width = 1, height = 1, data = [255, 0, 0, 255 :: byte]\<rparr>"
  let ?green = "\<lparr>width = 1, height = 1, data = [0, 255, 0, 255 :: byte]\<rparr>"
  let ?blue = "\<lparr>width = 1, height = 1, data = [0, 0, 255, 255 :: byte]\<rparr>"
  have w: "packRaster ?white = [0]"
    using raster_encoder_threshold [of ?white] by (simp add: b)
  have "\<forall>p < width ?black * height ?black.
          data ?black ! (p * 4) = 0 \<and> data ?black ! (p * 4 + 1) = 0 \<and> data ?black ! (p * 4 + 2) = 0
          \<and> data ?black ! (p * 4 + 3) = 255"
    by simp
  hence k: "bit (packRaster ?black ! 0) 7"
    using raster_encoder_threshold [of ?black] by (simp add: b)
  have "\<forall>p. p * 4 + 3 < length (data ?clear) \<longrightarrow> data ?clear ! (p * 4 + 3) = 0"
    by simp
  hence c: "packRaster ?clear = [0]"
    using raster_encoder_threshold [of ?clear] by (simp add: b)
  have r: "bit (packRaster ?red ! 0) 7"
    using raster_encoder_threshold [of ?red, THEN conjunct1, rule_format, of 0 0] by (simp add: b)
  have g: "\<not> bit (packRaster ?green ! 0) 7"
    using raster_encoder_threshold [of ?green, THEN conjunct1, rule_format, of 0 0] by (simp add: b)
  have u: "bit (packRaster ?blue ! 0) 7"
    using raster_encoder_threshold [of ?blue, THEN conjunct1, rule_format, of 0 0] by (simp add: b)
  from w k c r g u show ?thesis by (intro conjI)
qed

section \<open>Verification: the three-column helper\<close>

lemma replicate_numeral: "replicate (numeral k) x = x # replicate (pred_numeral k) x"
  by (simp add: numeral_eq_Suc)

lemma threeCol_unfold:
  "threeCol col1 col2 col3 (w1, w2, w3) =
     replicate (w1 - length col1) CHR '' '' @ col1 @ '' '' @
     col2 @ replicate (w2 - length col2) CHR '' '' @ '' '' @
     replicate (w3 - length col3) CHR '' '' @ col3"
  by (simp add: threeCol_def padStart_def padEnd_def)

text \<open>
  Claim C9, as the code has it. For every triple of column strings no longer than the
  column widths, the line is column 1 padded on the left (\<^verbatim>\<open>padStart\<close>: the text ends
  at the column's right edge), a space, column 2 padded on the right
  (\<^verbatim>\<open>padEnd\<close>), a space, and column 3 padded on the left; each field has exactly its
  width, so the line has \<open>w1 + w2 + w3 + 2\<close> characters.
\<close>

theorem threeCol_layout:
  assumes "length col1 \<le> w1" "length col2 \<le> w2" "length col3 \<le> w3"
  shows "threeCol col1 col2 col3 (w1, w2, w3) =
           padStart col1 w1 CHR '' '' @ '' '' @ padEnd col2 w2 CHR '' '' @ '' '' @ padStart col3 w3 CHR '' ''
         \<and> take w1 (threeCol col1 col2 col3 (w1, w2, w3)) = replicate (w1 - length col1) CHR '' '' @ col1
         \<and> take w2 (drop (w1 + 1) (threeCol col1 col2 col3 (w1, w2, w3)))
             = col2 @ replicate (w2 - length col2) CHR '' ''
         \<and> drop (w1 + w2 + 2) (threeCol col1 col2 col3 (w1, w2, w3))
             = replicate (w3 - length col3) CHR '' '' @ col3
         \<and> length (threeCol col1 col2 col3 (w1, w2, w3)) = w1 + w2 + w3 + 2"
  using assms by (simp add: threeCol_unfold padStart_def padEnd_def)

theorem threeCol_layout_witness:
  "threeCol ''1'' ''RUN'' ''1.00'' defaultWidths
     = ''       1 RUN                              1.00''
   \<and> take 8 (threeCol ''1'' ''RUN'' ''1.00'' defaultWidths) = ''       1''
   \<and> length (threeCol ''1'' ''RUN'' ''1.00'' defaultWidths) = 46"
  using threeCol_layout [of "''1''" 8 "''RUN''" 24 "''1.00''" 12]
  by (simp add: defaultWidths_def padStart_def padEnd_def replicate_numeral)

text \<open>
  The claim as the specification words it, that column 1 is padded on the right, fails:
  the first field of the stat line for the count \<open>1\<close> is seven spaces and then \<open>1\<close>.
\<close>

theorem threeCol_right_pad_counterexample:
  "take 8 (threeCol ''1'' ''RUN'' ''1.00'' defaultWidths) \<noteq> padEnd ''1'' 8 CHR '' ''"
  by (simp add: defaultWidths_def threeCol_unfold padEnd_def replicate_numeral)

section \<open>Verification: the QR payload framer\<close>

lemma char_of_ucast:
  "char_of (unat (w :: 32 word)) = (char_of (unat (ucast w :: byte)) :: char)"
proof -
  have "unat (ucast w :: byte) = unat w mod 256"
    by (simp add: unsigned_ucast_eq take_bit_eq_mod)
  thus ?thesis by simp
qed

lemma low_byte_char:
  "char_of (unat ((word_of_nat n :: 32 word) AND 0xff)) = (char_of (n mod 256) :: char)"
  unfolding char_of_ucast low_byte_w by (simp add: unat8)

lemma high_byte_char:
  "char_of (unat (signed_drop_bit 8 (word_of_nat n :: 32 word) AND 0xff))
     = (char_of (n div 256 mod 256) :: char)"
  unfolding char_of_ucast high_byte_w by (simp add: unat8)

lemma buildEpsonQR_chars:
  "buildEpsonQR dat moduleSize ecLevel =
     [GS, CHR ''('', CHR ''k'', CHR 0x04, CHR 0x00, CHR 0x31, CHR 0x41, CHR 0x32, CHR 0x00]
     @ [GS, CHR ''('', CHR ''k'', CHR 0x03, CHR 0x00, CHR 0x31, CHR 0x43, char_of moduleSize]
     @ ([GS, CHR ''('', CHR ''k'', CHR 0x03, CHR 0x00, CHR 0x31, CHR 0x45] @ ecLevel)
     @ ([GS, CHR ''('', CHR ''k'', char_of ((length dat + 3) mod 256),
         char_of ((length dat + 3) div 256 mod 256), CHR 0x31, CHR 0x50, CHR 0x30] @ dat)
     @ [GS, CHR ''('', CHR ''k'', CHR 0x03, CHR 0x00, CHR 0x31, CHR 0x51, CHR 0x30]"
  by (simp only: buildEpsonQR_def Let_def low_byte_char high_byte_char append.simps append_assoc)

lemma qr_length_field:
  "of_char (buildEpsonQR dat moduleSize ecLevel ! (27 + length ecLevel))
     + 256 * of_char (buildEpsonQR dat moduleSize ecLevel ! (28 + length ecLevel))
   = (length dat + 3) mod 65536"
  unfolding buildEpsonQR_chars by (simp add: nth_append le16)

text \<open>
  Claim C4, as the code has it. For every payload the framer emits five sub-commands,
  each opened by \<open>GS ( k\<close>, in the order select model (function \<open>0x41\<close>), set module size
  (\<open>0x43\<close>), set error-correction level (\<open>0x45\<close>), store symbol data (\<open>0x50\<close>) and print
  (\<open>0x51\<close>). The two bytes after the store sub-command's opener are the low and the
  high byte of the payload's byte length plus 3: as a little-endian 16-bit value they
  give that number modulo \<open>2\<^sup>1\<^sup>6\<close>, so exactly the length plus 3 for every payload of at
  most 65532 bytes, and in particular for 1 to 200 bytes.
\<close>

theorem qr_framing:
  "buildEpsonQR dat moduleSize ecLevel =
     [GS, CHR ''('', CHR ''k'', CHR 0x04, CHR 0x00, CHR 0x31, CHR 0x41, CHR 0x32, CHR 0x00]
     @ [GS, CHR ''('', CHR ''k'', CHR 0x03, CHR 0x00, CHR 0x31, CHR 0x43, char_of moduleSize]
     @ ([GS, CHR ''('', CHR ''k'', CHR 0x03, CHR 0x00, CHR 0x31, CHR 0x45] @ ecLevel)
     @ ([GS, CHR ''('', CHR ''k'', char_of ((length dat + 3) mod 256),
         char_of ((length dat + 3) div 256 mod 256), CHR 0x31, CHR 0x50, CHR 0x30] @ dat)
     @ [GS, CHR ''('', CHR ''k'', CHR 0x03, CHR 0x00, CHR 0x31, CHR 0x51, CHR 0x30]
   \<and> of_char (buildEpsonQR dat moduleSize ecLevel ! (27 + length ecLevel))
       + 256 * of_char (buildEpsonQR dat moduleSize ecLevel ! (28 + length ecLevel))
       = (length dat + 3) mod 65536
   \<and> (length dat \<le> 65532 \<longrightarrow>
        of_char (buildEpsonQR dat moduleSize ecLevel ! (27 + length ecLevel))
        + 256 * of_char (buildEpsonQR dat moduleSize ecLevel ! (28 + length ecLevel))
        = length dat + 3)"
proof (intro conjI impI)
  assume "length dat \<le> 65532"
  hence "(length dat + 3) mod 65536 = length dat + 3" by simp
  thus "of_char (buildEpsonQR dat moduleSize ecLevel ! (27 + length ecLevel))
        + 256 * of_char (buildEpsonQR dat moduleSize ecLevel ! (28 + length ecLevel))
        = length dat + 3"
    by (simp only: qr_length_field)
qed (rule buildEpsonQR_chars, rule qr_length_field)

theorem qr_framing_witness:
  "of_char (buildEpsonQR ''https://www.strava.com/activities/1'' 5 ''1'' ! 28)
   + 256 * of_char (buildEpsonQR ''https://www.strava.com/activities/1'' 5 ''1'' ! 29) = (38 :: nat)"
  using qr_framing [of "''https://www.strava.com/activities/1''" 5 "''1''"]
  by simp

text \<open>
  The claim for every payload fails where the length plus 3 no longer fits 16 bits: for
  a payload of 65533 bytes the stored length is 0.
\<close>

theorem qr_length_counterexample:
  "of_char (buildEpsonQR (replicate 65533 CHR ''a'') 5 ''1'' ! 28)
   + 256 * of_char (buildEpsonQR (replicate 65533 CHR ''a'') 5 ''1'' ! 29)
   \<noteq> length (replicate 65533 CHR ''a'') + 3"
  using qr_length_field [of "replicate 65533 CHR ''a''" 5 "''1''"]
  by simp

section \<open>Verification: numeric formatting\<close>

lemma natToString_digit: "n < 10 \<Longrightarrow> natToString n = [digit n]"
  by (subst natToString.simps) simp

lemma natToString_step: "10 \<le> n \<Longrightarrow> natToString n = natToString (n div 10) @ [digit (n mod 10)]"
  by (subst natToString.simps) simp

lemma length_natToString: "0 < length (natToString n)"
  by (subst natToString.simps) simp

lemma natToString_two_digits:
  assumes "10 \<le> n" "n < 100"
  shows "natToString n = [digit (n div 10), digit (n mod 10)]"
proof -
  have "n div 10 < 10" using assms(2) by simp
  thus ?thesis using assms(1) by (simp add: natToString_step natToString_digit)
qed

lemma natToString_hundreds:
  assumes "100 \<le> n"
  shows "natToString n = natToString (n div 100) @ [digit (n div 10 mod 10), digit (n mod 10)]"
proof -
  have a: "10 \<le> n" using assms by simp
  have b: "10 \<le> n div 10" using assms by simp
  have c: "n div 10 div 10 = n div 100" by (simp add: div_mult2_eq)
  show ?thesis
    by (simp add: natToString_step [OF a] natToString_step [OF b] c)
qed

lemma padStart_seconds:
  assumes "n < 100"
  shows "padStart (natToString n) 2 CHR ''0'' = [digit (n div 10), digit (n mod 10)]"
proof (cases "n < 10")
  case True
  hence "digit (n div 10) = CHR ''0''" by (simp add: digit_def) code_simp
  with True show ?thesis by (simp add: padStart_def natToString_digit)
next
  case False
  with assms show ?thesis by (simp add: padStart_def natToString_two_digits)
qed

lemma digit_0: "digit 0 = CHR ''0''"
  unfolding digit_def by code_simp

lemma toFixed2_digits:
  assumes "0 \<le> x"
  shows "toFixed x 2 =
           natToString (nat \<lfloor>x * 100 + 1 / 2\<rfloor> div 100) @ ''.'' @
           [digit (nat \<lfloor>x * 100 + 1 / 2\<rfloor> div 10 mod 10), digit (nat \<lfloor>x * 100 + 1 / 2\<rfloor> mod 10)]"
proof -
  define n where "n = nat \<lfloor>x * 100 + 1 / 2\<rfloor>"
  have tf: "toFixed x 2 =
      (let m = natToString n;
           m0 = (if length m \<le> 2 then replicate (3 - length m) CHR ''0'' @ m else m)
       in take (length m0 - 2) m0 @ ''.'' @ drop (length m0 - 2) m0)"
    using assms by (simp add: toFixed_def Let_def n_def)
  consider "n < 10" | "10 \<le> n" "n < 100" | "100 \<le> n" by linarith
  hence "toFixed x 2 = natToString (n div 100) @ ''.'' @ [digit (n div 10 mod 10), digit (n mod 10)]"
  proof cases
    case 1
    thus ?thesis
      by (simp add: tf natToString_digit digit_0 replicate_numeral)
  next
    case 2
    thus ?thesis
      by (simp add: tf natToString_two_digits natToString_digit digit_0 replicate_numeral)
  next
    case 3
    have "natToString (n div 100) \<noteq> []"
      using length_natToString [of "n div 100"] by simp
    thus ?thesis
      by (simp add: tf Let_def natToString_hundreds [OF 3])
  qed
  thus ?thesis unfolding n_def .
qed

lemma round_nearest: "\<bar>of_int (Math_round x) - x\<bar> \<le> 1 / 2"
  unfolding Math_round_def by linarith

lemma toFixed2_nearest:
  fixes x :: rat
  assumes "0 \<le> x"
  shows "\<bar>of_nat (nat \<lfloor>x * 100 + 1 / 2\<rfloor>) / 100 - x\<bar> \<le> 1 / 200"
proof -
  have "0 \<le> \<lfloor>x * 100 + 1 / 2\<rfloor>" using assms by simp
  hence "(of_nat (nat \<lfloor>x * 100 + 1 / 2\<rfloor>) :: rat) = of_int \<lfloor>x * 100 + 1 / 2\<rfloor>" by simp
  moreover have "\<bar>of_int \<lfloor>x * 100 + 1 / 2\<rfloor> - x * 100\<bar> \<le> 1 / 2" by linarith
  ultimately show ?thesis by linarith
qed

lemma intToString_nonneg: "0 \<le> i \<Longrightarrow> intToString i = natToString (nat i)"
  by (simp add: intToString_def)

lemma metersToMiles_pos: "0 < d \<Longrightarrow> 0 < metersToMiles d"
  by (simp add: metersToMiles_def)

lemma seconds_range:
  fixes p :: rat
  shows "0 \<le> Math_round ((p - of_int \<lfloor>p\<rfloor>) * 60)" and "Math_round ((p - of_int \<lfloor>p\<rfloor>) * 60) \<le> 60"
proof -
  have f: "0 \<le> p - of_int \<lfloor>p\<rfloor>" "p - of_int \<lfloor>p\<rfloor> < 1" by linarith+
  hence "0 \<le> (p - of_int \<lfloor>p\<rfloor>) * 60 + 1 / 2" by simp
  thus "0 \<le> Math_round ((p - of_int \<lfloor>p\<rfloor>) * 60)"
    unfolding Math_round_def by simp
  from f have "(p - of_int \<lfloor>p\<rfloor>) * 60 + 1 / 2 < 61" by simp
  hence "\<lfloor>(p - of_int \<lfloor>p\<rfloor>) * 60 + 1 / 2\<rfloor> < 61"
    by (simp add: floor_less_iff)
  thus "Math_round ((p - of_int \<lfloor>p\<rfloor>) * 60) \<le> 60"
    unfolding Math_round_def by simp
qed

lemma distanceStr_digits:
  assumes "distance a = Some d" "0 < d"
  shows "distanceStr a =
           natToString (nat \<lfloor>metersToMiles d * 100 + 1 / 2\<rfloor> div 100) @ ''.'' @
           [digit (nat \<lfloor>metersToMiles d * 100 + 1 / 2\<rfloor> div 10 mod 10),
            digit (nat \<lfloor>metersToMiles d * 100 + 1 / 2\<rfloor> mod 10)]"
proof -
  have "distanceMiles a = metersToMiles d" using assms by (simp add: distanceMiles_def)
  moreover have "0 \<le> metersToMiles d" using metersToMiles_pos [OF assms(2)] by simp
  ultimately show ?thesis by (simp add: distanceStr_def toFixed2_digits)
qed

lemma paceStr_digits:
  assumes "distance a = Some d" "0 < d" "movingTime a = Some t" "0 < t"
  shows "paceStr a =
           natToString (nat \<lfloor>t / 60 / metersToMiles d\<rfloor>) @ '':'' @
           [digit (nat (Math_round ((t / 60 / metersToMiles d - of_int \<lfloor>t / 60 / metersToMiles d\<rfloor>) * 60)) div 10),
            digit (nat (Math_round ((t / 60 / metersToMiles d - of_int \<lfloor>t / 60 / metersToMiles d\<rfloor>) * 60)) mod 10)]
           @ '' min/mi''"
proof -
  define p where "p = t / 60 / metersToMiles d"
  define s where "s = Math_round ((p - of_int \<lfloor>p\<rfloor>) * 60)"
  have dm: "distanceMiles a = metersToMiles d" using assms by (simp add: distanceMiles_def)
  have pos: "0 < metersToMiles d" by (rule metersToMiles_pos [OF assms(2)])
  have "0 \<le> p" unfolding p_def using pos assms(4) by simp
  hence m: "intToString \<lfloor>p\<rfloor> = natToString (nat \<lfloor>p\<rfloor>)"
    by (intro intToString_nonneg) simp
  have s0: "0 \<le> s" and s60: "s \<le> 60" unfolding s_def by (rule seconds_range)+
  have "nat s < 100" using s60 by simp
  hence sec: "padStart (intToString s) 2 CHR ''0'' = [digit (nat s div 10), digit (nat s mod 10)]"
    by (simp add: intToString_nonneg [OF s0] padStart_seconds)
  have "paceStr a = intToString \<lfloor>p\<rfloor> @ '':'' @ padStart (intToString s) 2 CHR ''0'' @ '' min/mi''"
    using assms(3,4) pos by (simp add: paceStr_def dm Let_def p_def s_def)
  thus ?thesis unfolding m sec unfolding s_def p_def by simp
qed

lemma digit_chars:
  "digit 0 = CHR ''0''" "digit 1 = CHR ''1''" "digit 2 = CHR ''2''" "digit 3 = CHR ''3''"
  "digit 4 = CHR ''4''" "digit 5 = CHR ''5''" "digit 6 = CHR ''6''" "digit 7 = CHR ''7''"
  "digit 8 = CHR ''8''" "digit 9 = CHR ''9''"
  unfolding digit_def by code_simp+

lemma digit_Suc_0: "digit (Suc 0) = CHR ''1''"
  using digit_chars(2) by simp

lemma heartRate_digits:
  assumes "average_heartrate a = Some h" "h \<noteq> 0"
  shows "heartRate a = intToString (Math_round h) @ '' bpm''"
  using assms by (simp add: heartRate_def)

lemma elevationGain_digits:
  assumes "total_elevation_gain a = Some e" "e \<noteq> 0"
  shows "elevationGain a = intToString (Math_round (e * (328084 / 100000))) @ '' ft''"
  using assms by (simp add: elevationGain_def)

lemma example_distance:
  "distanceStr (a\<lparr>distance := Some (160934 / 100)\<rparr>) = ''1.00''"
proof -
  let ?a = "a\<lparr>distance := Some (160934 / 100)\<rparr>"
  have n: "nat \<lfloor>metersToMiles (160934 / 100) * 100 + 1 / 2\<rfloor> = 100"
    by code_simp
  have e: "distance ?a = Some (160934 / 100)" by simp
  have pos: "(0 :: rat) < 160934 / 100" by simp
  from distanceStr_digits [OF e pos, unfolded n]
  show ?thesis by (simp add: natToString_digit digit_chars digit_Suc_0)
qed

lemma example_pace:
  assumes "metersToMiles d = 1"
  shows "paceStr (a\<lparr>distance := Some d, moving_time := Some 390\<rparr>) = ''6:30 min/mi''"
proof -
  let ?a = "a\<lparr>distance := Some d, moving_time := Some 390\<rparr>"
  have d: "0 < d" using assms by (simp add: metersToMiles_def)
  have e: "distance ?a = Some d" by simp
  have m: "movingTime ?a = Some 390"
    by (simp add: movingTime_def)
  have t: "(0 :: rat) < 390" by simp
  have p: "\<lfloor>390 / 60 / (1 :: rat)\<rfloor> = 6" by code_simp
  have s: "Math_round ((390 / 60 / 1 - of_int 6) * 60) = 30" by code_simp
  from paceStr_digits [OF e d m t, unfolded assms p s]
  show ?thesis by (simp add: natToString_digit digit_chars)
qed

lemma example_elevation:
  "elevationGain (a\<lparr>total_elevation_gain := Some 100\<rparr>) = ''328 ft''"
proof -
  let ?a = "a\<lparr>total_elevation_gain := Some 100\<rparr>"
  have r: "Math_round (100 * (328084 / 100000)) = 328" by code_simp
  have e: "total_elevation_gain ?a = Some 100" by simp
  have ne: "(100 :: rat) \<noteq> 0" by simp
  have "natToString 328 = ''328''"
    by (simp add: natToString_hundreds natToString_digit digit_chars)
  with elevationGain_digits [OF e ne, unfolded r]
  show ?thesis by (simp add: intToString_def)
qed

text \<open>
  Claim C5. The distance is rendered in miles with two decimals: the digits of the
  integer \<open>n\<close> nearest to 100 times the miles, a point before the last two. The pace
  is the whole minutes per mile, a colon, and the seconds: the remainder of the minute
  rounded to the nearest integer (between 0 and 60) and written with two digits, then
  \<open>min/mi\<close>. The elevation gain is the feet (metres times 3.28084) rounded to the nearest
  integer, then \<open>ft\<close>; the heart rate is rounded to the nearest integer, then \<open>bpm\<close>.
  In particular 1609.34 metres give \<open>1.00\<close>, 390 seconds over one mile give
  \<open>6:30 min/mi\<close>, and 100 metres of gain give \<open>328 ft\<close>.
\<close>

theorem numeric_formatting:
  "(\<forall>d. distance a = Some d \<and> 0 < d \<longrightarrow>
      distanceStr a =
        natToString (nat \<lfloor>metersToMiles d * 100 + 1 / 2\<rfloor> div 100) @ ''.'' @
        [digit (nat \<lfloor>metersToMiles d * 100 + 1 / 2\<rfloor> div 10 mod 10),
         digit (nat \<lfloor>metersToMiles d * 100 + 1 / 2\<rfloor> mod 10)]
      \<and> \<bar>of_nat (nat \<lfloor>metersToMiles d * 100 + 1 / 2\<rfloor>) / 100 - metersToMiles d\<bar> \<le> 1 / 200)
   \<and> (\<forall>d t. distance a = Some d \<and> 0 < d \<and> movingTime a = Some t \<and> 0 < t \<longrightarrow>
      paceStr a =
        natToString (nat \<lfloor>t / 60 / metersToMiles d\<rfloor>) @ '':'' @
        [digit (nat (Math_round ((t / 60 / metersToMiles d - of_int \<lfloor>t / 60 / metersToMiles d\<rfloor>) * 60)) div 10),
         digit (nat (Math_round ((t / 60 / metersToMiles d - of_int \<lfloor>t / 60 / metersToMiles d\<rfloor>) * 60)) mod 10)]
        @ '' min/mi''
      \<and> 0 \<le> Math_round ((t / 60 / metersToMiles d - of_int \<lfloor>t / 60 / metersToMiles d\<rfloor>) * 60)
      \<and> Math_round ((t / 60 / metersToMiles d - of_int \<lfloor>t / 60 / metersToMiles d\<rfloor>) * 60) \<le> 60
      \<and> \<bar>of_int (Math_round ((t / 60 / metersToMiles d - of_int \<lfloor>t / 60 / metersToMiles d\<rfloor>) * 60))
          - (t / 60 / metersToMiles d - of_int \<lfloor>t / 60 / metersToMiles d\<rfloor>) * 60\<bar> \<le> 1 / 2)
   \<and> (\<forall>e. total_elevation_gain a = Some e \<and> e \<noteq> 0 \<longrightarrow>
      elevationGain a = intToString (Math_round (e * (328084 / 100000))) @ '' ft''
      \<and> \<bar>of_int (Math_round (e * (328084 / 100000))) - e * (328084 / 100000)\<bar> \<le> 1 / 2)
   \<and> (\<forall>h. average_heartrate a = Some h \<and> h \<noteq> 0 \<longrightarrow>
      heartRate a = intToString (Math_round h) @ '' bpm''
      \<and> \<bar>of_int (Math_round h) - h\<bar> \<le> 1 / 2)
   \<and> distanceStr (a\<lparr>distance := Some (160934 / 100)\<rparr>) = ''1.00''
   \<and> (\<forall>d. metersToMiles d = 1 \<longrightarrow>
        paceStr (a\<lparr>distance := Some d, moving_time := Some 390\<rparr>) = ''6:30 min/mi'')
   \<and> elevationGain (a\<lparr>total_elevation_gain := Some 100\<rparr>) = ''328 ft''"
proof (intro conjI allI impI; (elim conjE)?)
  fix d assume "distance a = Some d" "0 < d"
  thus "distanceStr a =
        natToString (nat \<lfloor>metersToMiles d * 100 + 1 / 2\<rfloor> div 100) @ ''.'' @
        [digit (nat \<lfloor>metersToMiles d * 100 + 1 / 2\<rfloor> div 10 mod 10),
         digit (nat \<lfloor>metersToMiles d * 100 + 1 / 2\<rfloor> mod 10)]"
    by (rule distanceStr_digits)
next
  fix d :: rat assume "0 < d"
  hence "0 \<le> metersToMiles d" using metersToMiles_pos [of d] by simp
  thus "\<bar>of_nat (nat \<lfloor>metersToMiles d * 100 + 1 / 2\<rfloor>) / 100 - metersToMiles d\<bar> \<le> 1 / 200"
    by (rule toFixed2_nearest)
next
  fix d t assume "distance a = Some d" "0 < d" "movingTime a = Some t" "0 < t"
  thus "paceStr a =
        natToString (nat \<lfloor>t / 60 / metersToMiles d\<rfloor>) @ '':'' @
        [digit (nat (Math_round ((t / 60 / metersToMiles d - of_int \<lfloor>t / 60 / metersToMiles d\<rfloor>) * 60)) div 10),
         digit (nat (Math_round ((t / 60 / metersToMiles d - of_int \<lfloor>t / 60 / metersToMiles d\<rfloor>) * 60)) mod 10)]
        @ '' min/mi''"
    by (rule paceStr_digits)
next
  fix d t :: rat
  show "0 \<le> Math_round ((t / 60 / metersToMiles d - of_int \<lfloor>t / 60 / metersToMiles d\<rfloor>) * 60)"
    by (rule seconds_range)
next
  fix d t :: rat
  show "Math_round ((t / 60 / metersToMiles d - of_int \<lfloor>t / 60 / metersToMiles d\<rfloor>) * 60) \<le> 60"
    by (rule seconds_range)
next
  fix d t :: rat
  show "\<bar>of_int (Math_round ((t / 60 / metersToMiles d - of_int \<lfloor>t / 60 / metersToMiles d\<rfloor>) * 60))
          - (t / 60 / metersToMiles d - of_int \<lfloor>t / 60 / metersToMiles d\<rfloor>) * 60\<bar> \<le> 1 / 2"
    by (rule round_nearest)
next
  fix e assume "total_elevation_gain a = Some e" "e \<noteq> 0"
  thus "elevationGain a = intToString (Math_round (e * (328084 / 100000))) @ '' ft''"
    by (rule elevationGain_digits)
next
  fix e :: rat
  show "\<bar>of_int (Math_round (e * (328084 / 100000))) - e * (328084 / 100000)\<bar> \<le> 1 / 2"
    by (rule round_nearest)
next
  fix h assume "average_heartrate a = Some h" "h \<noteq> 0"
  thus "heartRate a = intToString (Math_round h) @ '' bpm''"
    by (rule heartRate_digits)
next
  fix h :: rat
  show "\<bar>of_int (Math_round h) - h\<bar> \<le> 1 / 2"
    by (rule round_nearest)
next
  show "distanceStr (a\<lparr>distance := Some (160934 / 100)\<rparr>) = ''1.00''"
    by (rule example_distance)
next
  fix d assume "metersToMiles d = 1"
  thus "paceStr (a\<lparr>distance := Some d, moving_time := Some 390\<rparr>) = ''6:30 min/mi''"
    by (rule example_pace)
next
  show "elevationGain (a\<lparr>total_elevation_gain := Some 100\<rparr>) = ''328 ft''"
    by (rule example_elevation)
qed

theorem numeric_formatting_witness:
  "distanceStr \<lparr>distance = Some 5000, moving_time = Some 1500, elapsed_time = None,
       average_heartrate = Some (1523 / 10), total_elevation_gain = Some 100\<rparr> = ''3.11''
   \<and> paceStr \<lparr>distance = Some 5000, moving_time = Some 1500, elapsed_time = None,
       average_heartrate = Some (1523 / 10), total_elevation_gain = Some 100\<rparr> = ''8:03 min/mi''
   \<and> elevationGain \<lparr>distance = Some 5000, moving_time = Some 1500, elapsed_time = None,
       average_heartrate = Some (1523 / 10), total_elevation_gain = Some 100\<rparr> = ''328 ft''
   \<and> heartRate \<lparr>distance = Some 5000, moving_time = Some 1500, elapsed_time = None,
       average_heartrate = Some (1523 / 10), total_elevation_gain = Some 100\<rparr> = ''152 bpm''"
proof -
  let ?ex = "\<lparr>distance = Some 5000, moving_time = Some 1500, elapsed_time = None,
       average_heartrate = Some (1523 / 10), total_elevation_gain = Some 100\<rparr>"
  note T = numeric_formatting [of ?ex]
  have n: "nat \<lfloor>metersToMiles 5000 * 100 + 1 / 2\<rfloor> = 311" by code_simp
  have p: "\<lfloor>1500 / 60 / metersToMiles 5000\<rfloor> = 8" by code_simp
  have s: "Math_round ((1500 / 60 / metersToMiles 5000 - of_int 8) * 60) = 3" by code_simp
  have r: "Math_round (100 * (328084 / 100000)) = 328" by code_simp
  have b: "Math_round (1523 / 10) = 152" by code_simp
  have h1: "distance ?ex = Some 5000 \<and> (0 :: rat) < 5000" by simp
  have h2: "distance ?ex = Some 5000 \<and> (0 :: rat) < 5000 \<and> movingTime ?ex = Some 1500 \<and> (0 :: rat) < 1500"
    by (simp add: movingTime_def)
  have h3: "total_elevation_gain ?ex = Some 100 \<and> (100 :: rat) \<noteq> 0" by simp
  have h4: "average_heartrate ?ex = Some (1523 / 10) \<and> (1523 / 10 :: rat) \<noteq> 0" by simp
  have n3: "natToString 328 = ''328''" "natToString 152 = ''152''"
    by (simp_all add: natToString_hundreds natToString_digit digit_chars digit_Suc_0)
  from T [THEN conjunct1, rule_format, OF h1, THEN conjunct1, unfolded n]
  have c1: "distanceStr ?ex = ''3.11''"
    by (simp add: natToString_digit digit_chars digit_Suc_0)
  from T [THEN conjunct2, THEN conjunct1, rule_format, OF h2, THEN conjunct1, unfolded p s]
  have c2: "paceStr ?ex = ''8:03 min/mi''"
    by (simp add: natToString_digit digit_chars digit_Suc_0)
  from T [THEN conjunct2, THEN conjunct2, THEN conjunct1, rule_format, OF h3, THEN conjunct1, unfolded r]
  have c3: "elevationGain ?ex = ''328 ft''"
    by (simp add: intToString_def n3)
  from T [THEN conjunct2, THEN conjunct2, THEN conjunct2, THEN conjunct1, rule_format, OF h4,
      THEN conjunct1, unfolded b]
  have c4: "heartRate ?ex = ''152 bpm''"
    by (simp add: intToString_def n3)
  from c1 c2 c3 c4 show ?thesis by (intro conjI)
qed

section \<open>Verification: the route renderer\<close>

lemma Min_insert_min:
  fixes a x :: "'a :: linorder"
  assumes "finite S"
  shows "Min (insert (min a x) S) = Min (insert a (insert x S))"
proof (cases "S = {}")
  case True
  thus ?thesis by simp
next
  case False
  with assms show ?thesis by (simp add: min.assoc)
qed

lemma Max_insert_max:
  fixes a x :: "'a :: linorder"
  assumes "finite S"
  shows "Max (insert (max a x) S) = Max (insert a (insert x S))"
proof (cases "S = {}")
  case True
  thus ?thesis by simp
next
  case False
  with assms show ?thesis by (simp add: max.assoc)
qed

lemma fold_boundsStep:
  "fold boundsStep pts (a, b, c, d) =
     (Min (insert a (lat ` set pts)), Max (insert b (lat ` set pts)),
      Min (insert c (lng ` set pts)), Max (insert d (lng ` set pts)))"
proof (induction pts arbitrary: a b c d)
  case Nil
  show ?case by simp
next
  case (Cons p ps)
  have "fold boundsStep (p # ps) (a, b, c, d) =
        fold boundsStep ps (min a (lat p), max b (lat p), min c (lng p), max d (lng p))"
    by (simp add: boundsStep_def)
  also have "\<dots> = (Min (insert (min a (lat p)) (lat ` set ps)), Max (insert (max b (lat p)) (lat ` set ps)),
      Min (insert (min c (lng p)) (lng ` set ps)), Max (insert (max d (lng p)) (lng ` set ps)))"
    by (rule Cons.IH)
  also have "\<dots> = (Min (insert a (lat ` set (p # ps))), Max (insert b (lat ` set (p # ps))),
      Min (insert c (lng ` set (p # ps))), Max (insert d (lng ` set (p # ps))))"
    by (simp add: Min_insert_min Max_insert_max)
  finally show ?case .
qed

lemma paddedBounds_eq:
  assumes "pts \<noteq> []"
  shows "paddedBounds pts =
     (Min (lat ` set pts) - max (Max (lat ` set pts) - Min (lat ` set pts)) (Max (lng ` set pts) - Min (lng ` set pts)) * (1 / 10),
      Max (lat ` set pts) + max (Max (lat ` set pts) - Min (lat ` set pts)) (Max (lng ` set pts) - Min (lng ` set pts)) * (1 / 10),
      Min (lng ` set pts) - max (Max (lat ` set pts) - Min (lat ` set pts)) (Max (lng ` set pts) - Min (lng ` set pts)) * (1 / 10),
      Max (lng ` set pts) + max (Max (lat ` set pts) - Min (lat ` set pts)) (Max (lng ` set pts) - Min (lng ` set pts)) * (1 / 10))"
proof -
  have "hd pts \<in> set pts" using assms by simp
  hence a: "insert (lat (hd pts)) (lat ` set pts) = lat ` set pts"
    and c: "insert (lng (hd pts)) (lng ` set pts) = lng ` set pts"
    by auto
  show ?thesis
    unfolding paddedBounds_def fold_boundsStep a c by (simp add: Let_def)
qed

lemma projectPoint_finite:
  assumes "maxLng - minLng \<noteq> 0" "maxLat - minLat \<noteq> 0"
  shows "projectPoint (minLat, maxLat, minLng, maxLng) p =
           (Fin ((lng p - minLng) / (maxLng - minLng) * 400),
            Fin (300 - (lat p - minLat) / (maxLat - minLat) * 300))"
  using assms by (simp add: projectPoint_def js_div_def svgWidth_def svgHeight_def)

lemma y_flip:
  fixes minLat maxLat :: rat
  assumes "minLat < maxLat" "lat q < lat p"
  shows "300 - (lat p - minLat) / (maxLat - minLat) * 300 < 300 - (lat q - minLat) / (maxLat - minLat) * 300"
proof -
  have "0 < maxLat - minLat" using assms(1) by simp
  hence "(lat q - minLat) / (maxLat - minLat) < (lat p - minLat) / (maxLat - minLat)"
    using assms(2) by (simp add: divide_strict_right_mono)
  hence "(lat q - minLat) / (maxLat - minLat) * 300 < (lat p - minLat) / (maxLat - minLat) * 300"
    by (rule mult_strict_right_mono) simp
  thus ?thesis by (rule diff_strict_left_mono)
qed

text \<open>
  Claim C6. For a route of at least two points the bounding box is the least and the
  greatest latitude and longitude, expanded on all four sides by a tenth of the larger
  of the two spans. When the padded box has nonzero extent in both directions, every
  point is mapped to \<open>x = (lng - minLng) / (maxLng - minLng) * 400\<close> and
  \<open>y = 300 - (lat - minLat) / (maxLat - minLat) * 300\<close> on the \<open>400 \<times> 300\<close> canvas. Whenever
  one point of the route lies north of another its \<open>y\<close> is strictly smaller; so, for a
  route with nonzero latitude spread, the northernmost point is drawn strictly above
  the southernmost.
\<close>

theorem route_projection:
  fixes pts :: "RoutePoint list"
  defines "S \<equiv> Min (lat ` set pts)" and "N \<equiv> Max (lat ` set pts)"
    and "W \<equiv> Min (lng ` set pts)" and "E \<equiv> Max (lng ` set pts)"
  defines "pad \<equiv> max (N - S) (E - W) * (1 / 10)"
  assumes len: "2 \<le> length pts"
  shows "paddedBounds pts = (S - pad, N + pad, W - pad, E + pad)
    \<and> ((E + pad) - (W - pad) \<noteq> 0 \<and> (N + pad) - (S - pad) \<noteq> 0 \<longrightarrow>
         pathData pts =
           map (\<lambda>p. (Fin ((lng p - (W - pad)) / ((E + pad) - (W - pad)) * 400),
                      Fin (300 - (lat p - (S - pad)) / ((N + pad) - (S - pad)) * 300))) pts)
    \<and> (\<forall>p \<in> set pts. \<forall>q \<in> set pts. lat q < lat p \<longrightarrow>
         (\<exists>yp yq. snd (projectPoint (paddedBounds pts) p) = Fin yp
                 \<and> snd (projectPoint (paddedBounds pts) q) = Fin yq \<and> yp < yq))
    \<and> (S < N \<longrightarrow>
         (\<forall>p \<in> set pts. \<forall>q \<in> set pts. lat p = N \<and> lat q = S \<longrightarrow>
            (\<exists>yp yq. snd (projectPoint (paddedBounds pts) p) = Fin yp
                    \<and> snd (projectPoint (paddedBounds pts) q) = Fin yq \<and> yp < yq)))"
proof -
  have ne: "pts \<noteq> []" using len by auto
  have pb: "paddedBounds pts = (S - pad, N + pad, W - pad, E + pad)"
    unfolding S_def N_def W_def E_def pad_def by (rule paddedBounds_eq [OF ne])
  have proj: "pathData pts =
           map (\<lambda>p. (Fin ((lng p - (W - pad)) / ((E + pad) - (W - pad)) * 400),
                      Fin (300 - (lat p - (S - pad)) / ((N + pad) - (S - pad)) * 300))) pts"
    if "(E + pad) - (W - pad) \<noteq> 0" "(N + pad) - (S - pad) \<noteq> 0"
    unfolding pathData_def pb using projectPoint_finite [OF that] by simp
  have flip: "\<exists>yp yq. snd (projectPoint (paddedBounds pts) p) = Fin yp
                 \<and> snd (projectPoint (paddedBounds pts) q) = Fin yq \<and> yp < yq"
    if pq: "p \<in> set pts" "q \<in> set pts" "lat q < lat p" for p q
  proof -
    have "S \<le> lat q" unfolding S_def using pq(2) by (intro Min_le) auto
    moreover have "lat p \<le> N" unfolding N_def using pq(1) by (intro Max_ge) auto
    ultimately have sn: "S < N" using pq(3) by simp
    hence "0 < pad" unfolding pad_def by (simp add: less_max_iff_disj)
    with sn have lt: "S - pad < N + pad" by simp
    hence nz: "(N + pad) - (S - pad) \<noteq> 0" by simp
    have y: "snd (projectPoint (paddedBounds pts) r)
               = Fin (300 - (lat r - (S - pad)) / ((N + pad) - (S - pad)) * 300)" for r
      unfolding pb using nz by (simp add: projectPoint_def js_div_def svgHeight_def)
    from y_flip [OF lt pq(3)] show ?thesis
      unfolding y by blast
  qed
  have ends: "\<exists>yp yq. snd (projectPoint (paddedBounds pts) p) = Fin yp
                 \<and> snd (projectPoint (paddedBounds pts) q) = Fin yq \<and> yp < yq"
    if "S < N" "p \<in> set pts" "q \<in> set pts" "lat p = N \<and> lat q = S" for p q
    using that by (intro flip) simp_all
  from pb proj flip ends show ?thesis by blast
qed

text \<open>
  The route from \<open>(40, -74)\<close> to \<open>(41, -73)\<close>: the padding is \<open>0.1\<close>, the start is drawn
  at \<open>(33.3, 275)\<close> and the end, further north, at \<open>(366.7, 25)\<close>.
\<close>

theorem route_projection_witness:
  "pathData [\<lparr>lat = 40, lng = - 74\<rparr>, \<lparr>lat = 41, lng = - 73\<rparr>]
     = [(Fin (100 / 3), Fin 275), (Fin (1100 / 3), Fin 25)]
   \<and> (\<exists>yp yq.
        snd (projectPoint (paddedBounds [\<lparr>lat = 40, lng = - 74\<rparr>, \<lparr>lat = 41, lng = - 73\<rparr>])
               \<lparr>lat = 41, lng = - 73\<rparr>) = Fin yp
        \<and> snd (projectPoint (paddedBounds [\<lparr>lat = 40, lng = - 74\<rparr>, \<lparr>lat = 41, lng = - 73\<rparr>])
               \<lparr>lat = 40, lng = - 74\<rparr>) = Fin yq
        \<and> yp < yq)"
proof -
  let ?pts = "[\<lparr>lat = 40, lng = - 74\<rparr>, \<lparr>lat = 41, lng = - 73\<rparr>]"
  have len: "2 \<le> length ?pts" by simp
  note T = route_projection [OF len]
  have m: "Min (lat ` set ?pts) = 40" "Max (lat ` set ?pts) = 41"
    "Min (lng ` set ?pts) = - 74" "Max (lng ` set ?pts) = - 73"
    by simp_all
  from T [THEN conjunct2, THEN conjunct1, unfolded m]
  have a: "pathData ?pts = [(Fin (100 / 3), Fin 275), (Fin (1100 / 3), Fin 25)]"
    by simp
  from T [THEN conjunct2, THEN conjunct2, THEN conjunct1, rule_format,
      of "\<lparr>lat = 41, lng = - 73\<rparr>" "\<lparr>lat = 40, lng = - 74\<rparr>"]
  have b: "\<exists>yp yq.
        snd (projectPoint (paddedBounds ?pts) \<lparr>lat = 41, lng = - 73\<rparr>) = Fin yp
        \<and> snd (projectPoint (paddedBounds ?pts) \<lparr>lat = 40, lng = - 74\<rparr>) = Fin yq
        \<and> yp < yq"
    by simp
  from a b show ?thesis by (rule conjI)
qed

subsection \<open>Degenerate routes\<close>

lemma short_route_placeholder:
  assumes "route = None \<or> length (the route) < 2"
  shows "buildGPSRouteRasterString env route maxWidth = ''''"
    and "routeSection env route = routePlaceholder"
  using assms by (auto simp: buildGPSRouteRasterString_def routeSection_def split: option.splits)

lemma failed_render_placeholder:
  assumes "rasterize env (pathData pts) 512 = None"
  shows "routeSection env (Some pts) = routePlaceholder"
  using assms by (simp add: buildGPSRouteRasterString_def routeSection_def)

lemma zero_extent_pathData: "pathData [p, p] = [(NaN, NaN), (NaN, NaN)]"
  by (simp add: pathData_def paddedBounds_def boundsStep_def projectPoint_def js_div_def Let_def)

lemma rasterEncode_nonempty: "rasterEncode bm \<noteq> []"
  using length_rasterEncode [of bm] by auto

text \<open>
  Claim C7 at a route of two equal points, with both libraries loaded. The extent of
  the bounding box is zero and so is the padding; both coordinates of both points are
  \<open>0 / 0\<close>. No check stands between these coordinates and the rasterizer: when it
  returns a bitmap \<open>bm\<close> for this path, the renderer returns the raster command of
  \<open>bm\<close> and the compositor pushes it as a raster block, not the placeholder line.
\<close>

theorem zero_extent_route_is_rendered:
  "pathData [p, p] = [(NaN, NaN), (NaN, NaN)]
   \<and> buildGPSRouteRasterString
        \<lparr>sharpModule = True, jimpModule = True, rasterize = (\<lambda>path maxWidth. Some bm)\<rparr>
        (Some [p, p]) 512 = rasterEncode bm
   \<and> routeSection
        \<lparr>sharpModule = True, jimpModule = True, rasterize = (\<lambda>path maxWidth. Some bm)\<rparr>
        (Some [p, p]) = [ALIGN_CENTER, rasterEncode bm, ALIGN_LEFT, [CHR 0x0A]]
   \<and> routeSection
        \<lparr>sharpModule = True, jimpModule = True, rasterize = (\<lambda>path maxWidth. Some bm)\<rparr>
        (Some [p, p]) \<noteq> routePlaceholder"
  by (simp add: zero_extent_pathData buildGPSRouteRasterString_def routeSection_def
      routePlaceholder_def rasterEncode_nonempty)

text \<open>
  The stationary route at \<open>(40, -74)\<close>, with a rasterizer that leaves the white
  \<open>400 \<times> 300\<close> canvas: the receipt gets a raster block of 15008 bytes.
\<close>

theorem zero_extent_route_is_rendered_witness:
  "routeSection
     \<lparr>sharpModule = True, jimpModule = True,
      rasterize = (\<lambda>path maxWidth. Some \<lparr>width = 400, height = 300, data = replicate 480000 255\<rparr>)\<rparr>
     (Some [\<lparr>lat = 40, lng = - 74\<rparr>, \<lparr>lat = 40, lng = - 74\<rparr>])
   = [ALIGN_CENTER, rasterEncode \<lparr>width = 400, height = 300, data = replicate 480000 255\<rparr>,
      ALIGN_LEFT, [CHR 0x0A]]
   \<and> length (rasterEncode \<lparr>width = 400, height = 300, data = replicate 480000 255\<rparr>) = 15008"
proof -
  have "bytesPerRow 400 = 50" by (simp add: bytesPerRow_div)
  hence "length (rasterEncode \<lparr>width = 400, height = 300, data = replicate 480000 255\<rparr>) = 15008"
    by (simp add: length_rasterEncode)
  with zero_extent_route_is_rendered
    [of "\<lparr>lat = 40, lng = - 74\<rparr>" "\<lparr>width = 400, height = 300, data = replicate 480000 255\<rparr>",
      THEN conjunct2, THEN conjunct2, THEN conjunct1]
  show ?thesis by (rule conjI)
qed

section \<open>Verification: paced transmission\<close>

lemma submissions_printSection:
  "submissions (printSection env secs d i now) =
     map (\<lambda>k. (now + (\<Sum>j = i..<k. lpTime env j + d + timerLag env j), k, secs ! k))
       (takeWhile (\<lambda>k. \<not> writeThrows env k) [i..<length secs])"
proof (induction env secs d i now rule: printSection.induct)
  case (1 env secs d i now)
  show ?case
  proof (cases "i \<ge> length secs")
    case True
    thus ?thesis by (subst printSection.simps) simp
  next
    case False
    hence lt: "i < length secs" by simp
    show ?thesis
    proof (cases "writeThrows env i")
      case True
      have "submissions (printSection env secs d i now) = []"
        using lt True by (subst printSection.simps) simp
      moreover have "takeWhile (\<lambda>k. \<not> writeThrows env k) [i..<length secs] = []"
        using lt True by (simp add: upt_conv_Cons)
      ultimately show ?thesis by simp
    next
      case w: False
      let ?now' = "now + lpTime env i + d + timerLag env i"
      let ?W = "takeWhile (\<lambda>k. \<not> writeThrows env k) [i + 1..<length secs]"
      have IH: "submissions (printSection env secs d (i + 1) ?now') =
             map (\<lambda>k. (?now' + (\<Sum>j = i + 1..<k. lpTime env j + d + timerLag env j), k, secs ! k)) ?W"
        using "1.IH" [OF False w] .
      have step: "?now' + (\<Sum>j = i + 1..<k. lpTime env j + d + timerLag env j)
                = now + (\<Sum>j = i..<k. lpTime env j + d + timerLag env j)"
        if "k \<in> set ?W" for k
      proof -
        have "k \<in> set [i + 1..<length secs]" using that by (rule set_takeWhileD [THEN conjunct1])
        hence "i < k" by simp
        hence "(\<Sum>j = i..<k. lpTime env j + d + timerLag env j)
                = (lpTime env i + d + timerLag env i) + (\<Sum>j = Suc i..<k. lpTime env j + d + timerLag env j)"
          by (rule sum.atLeast_Suc_lessThan)
        thus ?thesis by simp
      qed
      have "submissions (printSection env secs d i now) =
              (now, i, secs ! i) # submissions (printSection env secs d (i + 1) ?now')"
        using False w by (subst printSection.simps) simp
      also have "\<dots> = (now, i, secs ! i) #
             map (\<lambda>k. (now + (\<Sum>j = i..<k. lpTime env j + d + timerLag env j), k, secs ! k)) ?W"
        unfolding IH using step by (simp cong: map_cong)
      also have "\<dots> = map (\<lambda>k. (now + (\<Sum>j = i..<k. lpTime env j + d + timerLag env j), k, secs ! k))
               (takeWhile (\<lambda>k. \<not> writeThrows env k) [i..<length secs])"
        using lt w by (simp add: upt_conv_Cons)
      finally show ?thesis .
    qed
  qed
qed

lemma takeWhile_upt: "takeWhile P [0..<n] = [0..<length (takeWhile P [0..<n])]"
proof -
  have "length (takeWhile P [0..<n]) \<le> n"
    using length_takeWhile_le [of P "[0..<n]"] by simp
  hence "take (length (takeWhile P [0..<n])) [0..<n] = [0..<length (takeWhile P [0..<n])]"
    by (simp add: take_upt)
  thus ?thesis using takeWhile_eq_take [of P "[0..<n]"] by simp
qed

lemma errors_logged:
  assumes "\<And>j. j \<le> k \<Longrightarrow> \<not> writeThrows env j" "i \<le> k" "k < length secs" "lpFails env k"
  shows "LogError k \<in> set (printSection env secs d i now)"
  using assms
proof (induction env secs d i now rule: printSection.induct)
  case (1 env secs d i now)
  have lt: "\<not> i \<ge> length secs" using "1.prems"(2,3) by simp
  have w: "\<not> writeThrows env i" using "1.prems"(1,2) by simp
  have unf: "printSection env secs d i now =
      Submit now i (secs ! i) # (if lpFails env i then LogError i else LogSent i)
      # printSection env secs d (i + 1) (now + lpTime env i + d + timerLag env i)"
    using lt w by (subst printSection.simps) simp
  show ?case
  proof (cases "k = i")
    case True
    thus ?thesis unfolding unf using "1.prems"(4) by simp
  next
    case False
    hence "i + 1 \<le> k" using "1.prems"(2) by simp
    from "1.IH" [OF lt w "1.prems"(1) this "1.prems"(3,4)]
    show ?thesis unfolding unf by simp
  qed
qed

lemma sent_logged:
  assumes "\<And>j. j \<le> k \<Longrightarrow> \<not> writeThrows env j" "i \<le> k" "k < length secs" "\<not> lpFails env k"
  shows "LogSent k \<in> set (printSection env secs d i now)"
  using assms
proof (induction env secs d i now rule: printSection.induct)
  case (1 env secs d i now)
  have lt: "\<not> i \<ge> length secs" using "1.prems"(2,3) by simp
  have w: "\<not> writeThrows env i" using "1.prems"(1,2) by simp
  have unf: "printSection env secs d i now =
      Submit now i (secs ! i) # (if lpFails env i then LogError i else LogSent i)
      # printSection env secs d (i + 1) (now + lpTime env i + d + timerLag env i)"
    using lt w by (subst printSection.simps) simp
  show ?case
  proof (cases "k = i")
    case True
    thus ?thesis unfolding unf using "1.prems"(4) by simp
  next
    case False
    hence "i + 1 \<le> k" using "1.prems"(2) by simp
    from "1.IH" [OF lt w "1.prems"(1) this "1.prems"(3,4)]
    show ?thesis unfolding unf by simp
  qed
qed

lemma transmit_paced:
  assumes "0 < SLOW_PRINT_DELAYS mode" "1 < length (sectionsOf fullContent)"
  shows "transmit env mode fullContent now =
           printSection env (sectionsOf fullContent) (SLOW_PRINT_DELAYS mode) 0 now"
  using assms by (simp add: transmit_def Let_def)

lemma submissions_lpFails:
  "submissions (printSection (env\<lparr>lpFails := f\<rparr>) secs d i now)
     = submissions (printSection env secs d i now)"
  by (simp add: submissions_printSection)

lemma length_sectionsOf: "length (sectionsOf s) \<le> length (split SECTION_BREAK s)"
  by (simp add: sectionsOf_def)

text \<open>
  Claim C8, as the code has it. Let the mode have a positive delay \<open>d\<close> (150 ms for
  \<open>medium\<close>, 300 ms for \<open>slow\<close>, the mode the program is configured with) and let the
  stream split into \<open>n > 1\<close> non-empty sections (\<open>k\<close> section breaks give \<open>k + 1\<close>
  pieces, so \<open>n \<le> k + 1\<close>). The sections are submitted in their order, each at most
  once and with its own bytes, up to the first section whose spool file cannot be
  written: there the job stops. Each submission call comes at least \<open>d\<close> milliseconds
  after the one before. A failure reported by \<^verbatim>\<open>lp\<close> is logged, the section is not
  submitted again, and the submissions are those of a job without such failures. If
  every spool file is written, exactly \<open>n\<close> submissions are issued, one per section.
\<close>

theorem paced_transmission:
  assumes "0 < SLOW_PRINT_DELAYS mode"
    and "1 < length (sectionsOf fullContent)"
  shows "map (\<lambda>s. fst (snd s)) (submissions (transmit env mode fullContent now))
        = takeWhile (\<lambda>k. \<not> writeThrows env k) [0..<length (sectionsOf fullContent)]
    \<and> map (\<lambda>s. snd (snd s)) (submissions (transmit env mode fullContent now))
        = map (\<lambda>k. sectionsOf fullContent ! k)
            (takeWhile (\<lambda>k. \<not> writeThrows env k) [0..<length (sectionsOf fullContent)])
    \<and> (\<forall>k. k + 1 < length (submissions (transmit env mode fullContent now)) \<longrightarrow>
          fst (submissions (transmit env mode fullContent now) ! k) + SLOW_PRINT_DELAYS mode
          \<le> fst (submissions (transmit env mode fullContent now) ! (k + 1)))
    \<and> (\<forall>k < length (sectionsOf fullContent). (\<forall>j \<le> k. \<not> writeThrows env j) \<longrightarrow>
          (if lpFails env k then LogError k \<in> set (transmit env mode fullContent now)
           else LogSent k \<in> set (transmit env mode fullContent now)))
    \<and> (\<forall>f. submissions (transmit (env\<lparr>lpFails := f\<rparr>) mode fullContent now)
          = submissions (transmit env mode fullContent now))
    \<and> ((\<forall>k. \<not> writeThrows env k) \<longrightarrow>
          length (submissions (transmit env mode fullContent now)) = length (sectionsOf fullContent)
          \<and> map (\<lambda>s. fst (snd s)) (submissions (transmit env mode fullContent now))
              = [0..<length (sectionsOf fullContent)]
          \<and> map (\<lambda>s. snd (snd s)) (submissions (transmit env mode fullContent now))
              = sectionsOf fullContent
          \<and> (\<forall>k. k + 1 < length (sectionsOf fullContent) \<longrightarrow>
                fst (submissions (transmit env mode fullContent now) ! k) + SLOW_PRINT_DELAYS mode
                \<le> fst (submissions (transmit env mode fullContent now) ! (k + 1))))
    \<and> (mode = medium \<longrightarrow> SLOW_PRINT_DELAYS mode = 150)
    \<and> (mode = SLOW_PRINT_MODE \<longrightarrow> SLOW_PRINT_DELAYS mode = 300)
    \<and> length (sectionsOf fullContent) \<le> length (split SECTION_BREAK fullContent)"
proof -
  let ?secs = "sectionsOf fullContent"
  let ?d = "SLOW_PRINT_DELAYS mode"
  let ?t = "\<lambda>k. now + (\<Sum>j = 0..<k. lpTime env j + ?d + timerLag env j)"
  let ?W = "takeWhile (\<lambda>k. \<not> writeThrows env k) [0..<length ?secs]"
  let ?subs = "submissions (transmit env mode fullContent now)"
  have tr: "transmit env mode fullContent now = printSection env ?secs ?d 0 now" for env
    by (rule transmit_paced [OF assms])
  have subs: "?subs = map (\<lambda>k. (?t k, k, ?secs ! k)) ?W"
    unfolding tr by (rule submissions_printSection)
  have W: "?W = [0..<length ?W]" by (rule takeWhile_upt)
  have len: "length ?subs = length ?W" unfolding subs by simp
  have subs': "?subs = map (\<lambda>k. (?t k, k, ?secs ! k)) [0..<length ?W]"
    using subs W by simp
  have a: "map (\<lambda>s. fst (snd s)) ?subs = ?W"
    unfolding subs by (simp add: comp_def)
  have b: "map (\<lambda>s. snd (snd s)) ?subs = map (\<lambda>k. ?secs ! k) ?W"
    unfolding subs by (simp add: comp_def)
  have c: "fst (?subs ! k) + ?d \<le> fst (?subs ! (k + 1))" if "k + 1 < length ?subs" for k
  proof -
    have k: "k + 1 < length ?W" using that len by simp
    have "?subs ! k = (?t k, k, ?secs ! k)" "?subs ! (k + 1) = (?t (k + 1), k + 1, ?secs ! (k + 1))"
      using k by (simp_all add: subs')
    thus ?thesis by simp
  qed
  have d: "if lpFails env k then LogError k \<in> set (transmit env mode fullContent now)
          else LogSent k \<in> set (transmit env mode fullContent now)"
    if "k < length ?secs" "\<forall>j \<le> k. \<not> writeThrows env j" for k
  proof -
    have w: "\<not> writeThrows env j" if "j \<le> k" for j using that \<open>\<forall>j \<le> k. \<not> writeThrows env j\<close> by simp
    show ?thesis
      unfolding tr
      using errors_logged [OF w _ that(1), of 0] sent_logged [OF w _ that(1), of 0] by simp
  qed
  have e: "submissions (transmit (env\<lparr>lpFails := f\<rparr>) mode fullContent now) = ?subs" for f
    unfolding tr by (rule submissions_lpFails)
  have f: "length ?subs = length ?secs
          \<and> map (\<lambda>s. fst (snd s)) ?subs = [0..<length ?secs]
          \<and> map (\<lambda>s. snd (snd s)) ?subs = ?secs
          \<and> (\<forall>k. k + 1 < length ?secs \<longrightarrow> fst (?subs ! k) + ?d \<le> fst (?subs ! (k + 1)))"
    if "\<forall>k. \<not> writeThrows env k"
  proof -
    have all: "?W = [0..<length ?secs]" using that by simp
    have l: "length ?subs = length ?secs" using len all by simp
    have "map (\<lambda>s. snd (snd s)) ?subs = map (\<lambda>k. ?secs ! k) [0..<length ?secs]"
      using b all by simp
    hence "map (\<lambda>s. snd (snd s)) ?subs = ?secs" by (simp add: map_nth)
    with l a all c show ?thesis by simp
  qed
  have g: "mode = medium \<longrightarrow> ?d = 150" by simp
  have h: "mode = SLOW_PRINT_MODE \<longrightarrow> ?d = 300" by (simp add: SLOW_PRINT_MODE_def)
  from a b c d e f g h length_sectionsOf [of fullContent] show ?thesis by blast
qed


text \<open>
  Three section breaks, each closing a section, in the configured mode: three
  submissions, the first of which fails; each \<^verbatim>\<open>lp\<close> takes 20 ms and each timer is 1 ms
  late. The same stream in mode \<open>medium\<close> when the second spool file cannot be written:
  one submission.
\<close>

theorem paced_transmission_witness:
  "map (\<lambda>s. fst (snd s))
     (submissions (transmit
        \<lparr>writeThrows = (\<lambda>i. False), lpFails = (\<lambda>i. i = 0), lpTime = (\<lambda>i. 20), timerLag = (\<lambda>i. 1)\<rparr>
        SLOW_PRINT_MODE ''A<<<SECTION>>>B<<<SECTION>>>C<<<SECTION>>>'' 1000)) = [0, 1, 2]
   \<and> map (\<lambda>s. snd (snd s))
     (submissions (transmit
        \<lparr>writeThrows = (\<lambda>i. False), lpFails = (\<lambda>i. i = 0), lpTime = (\<lambda>i. 20), timerLag = (\<lambda>i. 1)\<rparr>
        SLOW_PRINT_MODE ''A<<<SECTION>>>B<<<SECTION>>>C<<<SECTION>>>'' 1000)) = [''A'', ''B'', ''C'']
   \<and> LogError 0 \<in> set (transmit
        \<lparr>writeThrows = (\<lambda>i. False), lpFails = (\<lambda>i. i = 0), lpTime = (\<lambda>i. 20), timerLag = (\<lambda>i. 1)\<rparr>
        SLOW_PRINT_MODE ''A<<<SECTION>>>B<<<SECTION>>>C<<<SECTION>>>'' 1000)
   \<and> fst (submissions (transmit
        \<lparr>writeThrows = (\<lambda>i. False), lpFails = (\<lambda>i. i = 0), lpTime = (\<lambda>i. 20), timerLag = (\<lambda>i. 1)\<rparr>
        SLOW_PRINT_MODE ''A<<<SECTION>>>B<<<SECTION>>>C<<<SECTION>>>'' 1000) ! 0) + 300
      \<le> fst (submissions (transmit
        \<lparr>writeThrows = (\<lambda>i. False), lpFails = (\<lambda>i. i = 0), lpTime = (\<lambda>i. 20), timerLag = (\<lambda>i. 1)\<rparr>
        SLOW_PRINT_MODE ''A<<<SECTION>>>B<<<SECTION>>>C<<<SECTION>>>'' 1000) ! 1)
   \<and> map (\<lambda>s. fst (snd s))
     (submissions (transmit
        \<lparr>writeThrows = (\<lambda>i. i = 1), lpFails = (\<lambda>i. False), lpTime = (\<lambda>i. 20), timerLag = (\<lambda>i. 1)\<rparr>
        medium ''A<<<SECTION>>>B<<<SECTION>>>C<<<SECTION>>>'' 1000)) = [0]"
proof -
  let ?env = "\<lparr>writeThrows = (\<lambda>i. False), lpFails = (\<lambda>i. i = 0), lpTime = (\<lambda>i. 20), timerLag = (\<lambda>i. 1)\<rparr>"
  let ?env' = "\<lparr>writeThrows = (\<lambda>i. i = 1), lpFails = (\<lambda>i. False), lpTime = (\<lambda>i. 20), timerLag = (\<lambda>i. 1)\<rparr>"
  let ?s = "''A<<<SECTION>>>B<<<SECTION>>>C<<<SECTION>>>''"
  let ?subs = "submissions (transmit ?env SLOW_PRINT_MODE ?s 1000)"
  have secs: "sectionsOf ?s = [''A'', ''B'', ''C'']" by code_simp
  have h1: "0 < SLOW_PRINT_DELAYS SLOW_PRINT_MODE" by (simp add: SLOW_PRINT_MODE_def)
  have h1': "0 < SLOW_PRINT_DELAYS medium" by simp
  have h2: "1 < length (sectionsOf ?s)" unfolding secs by simp
  have u: "[0..<length [''A'', ''B'', ''C'']] = [0, 1, 2]" by (simp add: upt_rec)
  note T = paced_transmission [OF h1 h2, of ?env 1000, unfolded secs u]
  note T' = paced_transmission [OF h1' h2, of ?env' 1000, unfolded secs u]
  from T [THEN conjunct1]
  have a: "map (\<lambda>s. fst (snd s)) ?subs = [0, 1, 2]" by simp
  from T [THEN conjunct2, THEN conjunct1]
  have b: "map (\<lambda>s. snd (snd s)) ?subs = [''A'', ''B'', ''C'']" by simp
  from T [THEN conjunct2, THEN conjunct2, THEN conjunct2, THEN conjunct1, rule_format, of 0]
  have c: "LogError 0 \<in> set (transmit ?env SLOW_PRINT_MODE ?s 1000)" by simp
  have "length ?subs = 3" using arg_cong [OF a, of length] by simp
  with T [THEN conjunct2, THEN conjunct2, THEN conjunct1, rule_format, of 0]
  have d: "fst (?subs ! 0) + 300 \<le> fst (?subs ! 1)" by (simp add: SLOW_PRINT_MODE_def)
  from T' [THEN conjunct1]
  have e: "map (\<lambda>s. fst (snd s)) (submissions (transmit ?env' medium ?s 1000)) = [0]" by simp
  from a b c d e show ?thesis by (intro conjI)
qed

text \<open>
  The example of the claim fails as it is worded: a stream with three section breaks
  between four non-empty pieces is submitted in four sections, in mode \<open>medium\<close> and
  in the configured mode alike.
\<close>

theorem three_breaks_counterexample:
  "length (split SECTION_BREAK ''A<<<SECTION>>>B<<<SECTION>>>C<<<SECTION>>>D'') - 1 = 3
   \<and> length (submissions (transmit
        \<lparr>writeThrows = (\<lambda>i. False), lpFails = (\<lambda>i. False), lpTime = (\<lambda>i. 0), timerLag = (\<lambda>i. 0)\<rparr>
        medium ''A<<<SECTION>>>B<<<SECTION>>>C<<<SECTION>>>D'' 0)) \<noteq> 3
   \<and> length (submissions (transmit
        \<lparr>writeThrows = (\<lambda>i. False), lpFails = (\<lambda>i. False), lpTime = (\<lambda>i. 0), timerLag = (\<lambda>i. 0)\<rparr>
        SLOW_PRINT_MODE ''A<<<SECTION>>>B<<<SECTION>>>C<<<SECTION>>>D'' 0)) \<noteq> 3"
proof -
  let ?env = "\<lparr>writeThrows = (\<lambda>i. False), lpFails = (\<lambda>i. False), lpTime = (\<lambda>i. 0), timerLag = (\<lambda>i. 0)\<rparr>"
  let ?s = "''A<<<SECTION>>>B<<<SECTION>>>C<<<SECTION>>>D''"
  have sp: "split SECTION_BREAK ?s = [''A'', ''B'', ''C'', ''D'']" by code_simp
  have secs: "sectionsOf ?s = [''A'', ''B'', ''C'', ''D'']" by (simp add: sectionsOf_def sp)
  have "transmit ?env mode ?s 0 = printSection ?env (sectionsOf ?s) (SLOW_PRINT_DELAYS mode) 0 0"
    if "0 < SLOW_PRINT_DELAYS mode" for mode
    using that by (rule transmit_paced) (simp add: secs)
  hence "length (submissions (transmit ?env mode ?s 0)) = 4" if "0 < SLOW_PRINT_DELAYS mode" for mode
    using that by (simp add: submissions_printSection secs)
  from this [of medium] this [of SLOW_PRINT_MODE] show ?thesis by (simp add: sp SLOW_PRINT_MODE_def)
qed

section \<open>Verification: the raster command on its way to the printer\<close>

subsection \<open>Removing the section marker\<close>

lemma concat_splitAux_acc:
  "concat (splitAux sep k acc s) = rev acc @ concat (splitAux sep k [] s)"
proof (induction s arbitrary: k acc)
  case Nil
  show ?case by simp
next
  case (Cons c cs)
  show ?case
  proof (cases "0 < k")
    case True
    thus ?thesis using Cons.IH [of "k - 1" acc] by simp
  next
    case s: False
    show ?thesis
    proof (cases "take (length sep) (c # cs) = sep")
      case True
      thus ?thesis using s by simp
    next
      case False
      have "concat (splitAux sep 0 (c # acc) cs) = rev (c # acc) @ concat (splitAux sep 0 [] cs)"
        by (rule Cons.IH)
      moreover have "concat (splitAux sep 0 [c] cs) = rev [c] @ concat (splitAux sep 0 [] cs)"
        by (rule Cons.IH)
      ultimately show ?thesis using s False by simp
    qed
  qed
qed

lemma take_marker_before:
  assumes "g \<notin> set sep"
  shows "take (length sep) (xs @ g # rest) = sep \<longleftrightarrow> take (length sep) xs = sep"
proof
  assume eq: "take (length sep) (xs @ g # rest) = sep"
  have "length sep \<le> length xs"
  proof (rule ccontr)
    assume "\<not> length sep \<le> length xs"
    hence "length xs < length sep" by simp
    hence "take (length sep) (xs @ g # rest) ! length xs = g" by (simp add: nth_append)
    moreover have "length xs < length (take (length sep) (xs @ g # rest))"
      using \<open>length xs < length sep\<close> by simp
    ultimately have "g \<in> set (take (length sep) (xs @ g # rest))"
      by (metis nth_mem)
    hence "g \<in> set sep" by (simp only: eq)
    thus False using assms by simp
  qed
  thus "take (length sep) xs = sep" using eq by simp
next
  assume eq: "take (length sep) xs = sep"
  have "length sep \<le> length xs"
    using arg_cong [OF eq, of length] by simp
  thus "take (length sep) (xs @ g # rest) = sep" using eq by simp
qed

lemma strip_before:
  assumes "g \<notin> set sep"
  shows "k \<le> length pre \<Longrightarrow>
     concat (splitAux sep k [] (pre @ g # rest))
       = concat (splitAux sep k [] pre) @ concat (splitAux sep 0 [] (g # rest))"
proof (induction pre arbitrary: k)
  case Nil
  thus ?case by simp
next
  case (Cons c cs)
  show ?case
  proof (cases "0 < k")
    case True
    hence "k - 1 \<le> length cs" using Cons.prems by simp
    from Cons.IH [OF this] show ?thesis using True by simp
  next
    case s: False
    have m: "take (length sep) (c # cs @ g # rest) = sep \<longleftrightarrow> take (length sep) (c # cs) = sep"
      using take_marker_before [OF assms, of "c # cs" rest] by simp
    show ?thesis
    proof (cases "take (length sep) (c # cs) = sep")
      case True
      have "length sep \<le> length (c # cs)" using arg_cong [OF True, of length] by simp
      hence "length sep - 1 \<le> length cs" by simp
      from Cons.IH [OF this] show ?thesis using s True m by simp
    next
      case False
      have "concat (splitAux sep 0 [c] (cs @ g # rest))
              = rev [c] @ concat (splitAux sep 0 [] (cs @ g # rest))"
        by (rule concat_splitAux_acc)
      moreover have "concat (splitAux sep 0 [c] cs) = rev [c] @ concat (splitAux sep 0 [] cs)"
        by (rule concat_splitAux_acc)
      moreover have "concat (splitAux sep 0 [] (cs @ g # rest))
              = concat (splitAux sep 0 [] cs) @ concat (splitAux sep 0 [] (g # rest))"
        by (rule Cons.IH) simp
      ultimately show ?thesis using s False m by simp
    qed
  qed
qed

lemma strip_through:
  "(\<forall>i < length xs. take (length sep) (drop i (xs @ post)) \<noteq> sep) \<Longrightarrow>
     concat (splitAux sep 0 [] (xs @ post)) = xs @ concat (splitAux sep 0 [] post)"
proof (induction xs)
  case Nil
  show ?case by simp
next
  case (Cons x xs)
  have here: "take (length sep) (x # xs @ post) \<noteq> sep"
    using Cons.prems [rule_format, of 0] by simp
  have "\<forall>i < length xs. take (length sep) (drop i (xs @ post)) \<noteq> sep"
  proof (intro allI impI)
    fix i assume "i < length xs"
    hence "Suc i < length (x # xs)" by simp
    from Cons.prems [rule_format, OF this]
    show "take (length sep) (drop i (xs @ post)) \<noteq> sep" by simp
  qed
  hence IH: "concat (splitAux sep 0 [] (xs @ post)) = xs @ concat (splitAux sep 0 [] post)"
    by (rule Cons.IH)
  have "concat (splitAux sep 0 [x] (xs @ post)) = rev [x] @ concat (splitAux sep 0 [] (xs @ post))"
    by (rule concat_splitAux_acc)
  thus ?case using here IH by simp
qed

lemma strip_around:
  assumes "g \<notin> set sep"
    and "\<forall>i < length (g # cs). take (length sep) (drop i ((g # cs) @ post)) \<noteq> sep"
  shows "concat (split sep (pre @ (g # cs) @ post))
           = concat (split sep pre) @ (g # cs) @ concat (split sep post)"
proof -
  have "concat (splitAux sep 0 [] (pre @ g # (cs @ post)))
          = concat (splitAux sep 0 [] pre) @ concat (splitAux sep 0 [] (g # (cs @ post)))"
    by (rule strip_before [OF assms(1)]) simp
  moreover have "concat (splitAux sep 0 [] ((g # cs) @ post))
          = (g # cs) @ concat (splitAux sep 0 [] post)"
    by (rule strip_through [OF assms(2)])
  ultimately show ?thesis by (simp add: split_def)
qed

lemma marker_needs_its_bytes:
  assumes "c \<in> set sep" "c \<notin> set s"
  shows "take (length sep) (drop i s) \<noteq> sep"
proof
  assume "take (length sep) (drop i s) = sep"
  hence "c \<in> set (take (length sep) (drop i s))" using assms(1) by simp
  hence "c \<in> set s" by (meson in_set_takeD in_set_dropD)
  thus False using assms(2) by simp
qed

subsection \<open>The bytes of a job\<close>

lemma concat_filter_nonempty: "concat (filter (\<lambda>s. s \<noteq> []) xs) = concat xs"
  by (induction xs) simp_all

lemma takeWhile_all: "(\<And>x. P x) \<Longrightarrow> takeWhile P xs = xs"
  by (induction xs) simp_all

lemma submittedBytes_transmit:
  assumes "\<And>k. \<not> writeThrows env k"
  shows "submittedBytes (transmit env mode s now) = concat (split SECTION_BREAK s)"
proof (cases "0 < SLOW_PRINT_DELAYS mode \<and> 1 < length (sectionsOf s)")
  case True
  hence tr: "transmit env mode s now = printSection env (sectionsOf s) (SLOW_PRINT_DELAYS mode) 0 now"
    by (simp add: transmit_paced)
  have "map (\<lambda>s. snd (snd s)) (submissions (transmit env mode s now))
          = map (\<lambda>k. sectionsOf s ! k) [0..<length (sectionsOf s)]"
    unfolding tr submissions_printSection takeWhile_all [of "\<lambda>k. \<not> writeThrows env k", OF assms]
    by (simp add: comp_def)
  hence "map (\<lambda>s. snd (snd s)) (submissions (transmit env mode s now)) = sectionsOf s"
    by (simp add: map_nth)
  thus ?thesis by (simp add: submittedBytes_def sectionsOf_def concat_filter_nonempty)
next
  case False
  hence "transmit env mode s now
           = [Submit now 0 (concat (split SECTION_BREAK s)),
              if lpFails env 0 then LogError 0 else LogSent 0]"
    using assms by (auto simp add: transmit_def Let_def)
  thus ?thesis by (simp add: submittedBytes_def)
qed

lemma GS_not_in_marker: "CHR 0x1D \<notin> set SECTION_BREAK"
  by (simp add: SECTION_BREAK_def)

text \<open>
  Claim C3, as the code has it. For every packed raster \<open>(bytesPerRow, height, payload)\<close>
  the raster-image command is an 8-byte header followed by the payload bytes unchanged.
  The header is the opcode \<open>GS v 0\<close> (\<open>0x1D 0x76 0x30\<close>), the mode byte, the low and
  the high byte of \<open>bytesPerRow\<close> and the low and the high byte of \<open>height\<close>: read as
  little-endian 16-bit values, bytes 4-5 and 6-7 give \<open>bytesPerRow\<close> and \<open>height\<close>
  modulo \<open>2\<^sup>1\<^sup>6\<close>, hence the values themselves when they are below 65536. Every
  character from offset 8 on has the code of the payload byte at that place: nothing
  is escaped or transformed. On its way to the printer the stream that holds the
  command is cut at every section marker, and the marker is dropped (lines 610-611 and
  689 of the source). For a stream \<open>pre @ command @ post\<close>: if every spool file is
  written and no section marker starts inside the command, the bytes handed to the
  printer queue are those of \<open>pre\<close> and of \<open>post\<close> without their markers, with the
  command unchanged between them.
\<close>

theorem raster_command_emitted:
  "buildRasterImageCommand bpr h payload m =
     [CHR 0x1D, CHR ''v'', CHR ''0'', char_of m,
      char_of (bpr mod 256), char_of (bpr div 256 mod 256),
      char_of (h mod 256), char_of (h div 256 mod 256)]
     @ bytesToBinaryString payload
   \<and> length (buildRasterImageCommand bpr h payload m) = 8 + length payload
   \<and> of_char (buildRasterImageCommand bpr h payload m ! 4)
       + 256 * of_char (buildRasterImageCommand bpr h payload m ! 5) = bpr mod 65536
   \<and> of_char (buildRasterImageCommand bpr h payload m ! 6)
       + 256 * of_char (buildRasterImageCommand bpr h payload m ! 7) = h mod 65536
   \<and> (bpr < 65536 \<longrightarrow>
        of_char (buildRasterImageCommand bpr h payload m ! 4)
          + 256 * of_char (buildRasterImageCommand bpr h payload m ! 5) = bpr)
   \<and> (h < 65536 \<longrightarrow>
        of_char (buildRasterImageCommand bpr h payload m ! 6)
          + 256 * of_char (buildRasterImageCommand bpr h payload m ! 7) = h)
   \<and> map (\<lambda>c. word_of_nat (of_char c)) (drop 8 (buildRasterImageCommand bpr h payload m))
       = payload
   \<and> ((\<forall>k. \<not> writeThrows env k)
        \<and> (\<forall>i < length (buildRasterImageCommand bpr h payload m).
              take (length SECTION_BREAK) (drop i (buildRasterImageCommand bpr h payload m @ post))
                \<noteq> SECTION_BREAK)
        \<longrightarrow> submittedBytes (transmit env mode (pre @ buildRasterImageCommand bpr h payload m @ post) now)
              = concat (split SECTION_BREAK pre) @ buildRasterImageCommand bpr h payload m
                  @ concat (split SECTION_BREAK post))"
proof -
  let ?cmd = "buildRasterImageCommand bpr h payload m"
  let ?body = "[CHR ''v'', CHR ''0'', char_of m,
      char_of (bpr mod 256), char_of (bpr div 256 mod 256),
      char_of (h mod 256), char_of (h div 256 mod 256)] @ bytesToBinaryString payload"
  have a: "?cmd = [CHR 0x1D, CHR ''v'', CHR ''0'', char_of m,
      char_of (bpr mod 256), char_of (bpr div 256 mod 256),
      char_of (h mod 256), char_of (h div 256 mod 256)] @ bytesToBinaryString payload"
    by (rule buildRasterImageCommand_chars)
  have b: "length ?cmd = 8 + length payload"
    unfolding buildRasterImageCommand_chars by (simp add: bytesToBinaryString_def)
  have c: "of_char (?cmd ! 4) + 256 * of_char (?cmd ! 5) = bpr mod 65536"
    unfolding buildRasterImageCommand_chars by (simp add: le16)
  have d: "of_char (?cmd ! 6) + 256 * of_char (?cmd ! 7) = h mod 65536"
    unfolding buildRasterImageCommand_chars by (simp add: le16)
  have e: "bpr < 65536 \<longrightarrow> of_char (?cmd ! 4) + 256 * of_char (?cmd ! 5) = bpr"
    using c by simp
  have f: "h < 65536 \<longrightarrow> of_char (?cmd ! 6) + 256 * of_char (?cmd ! 7) = h"
    using d by simp
  have g: "map (\<lambda>c. word_of_nat (of_char c)) (drop 8 ?cmd) = payload"
    unfolding buildRasterImageCommand_chars by (simp add: binary_string_verbatim)
  have i: "submittedBytes (transmit env mode (pre @ ?cmd @ post) now)
              = concat (split SECTION_BREAK pre) @ ?cmd @ concat (split SECTION_BREAK post)"
    if w: "\<forall>k. \<not> writeThrows env k"
      and free: "\<forall>i < length ?cmd. take (length SECTION_BREAK) (drop i (?cmd @ post)) \<noteq> SECTION_BREAK"
  proof -
    have cmd: "?cmd = CHR 0x1D # ?body" unfolding buildRasterImageCommand_chars by simp
    have "concat (split SECTION_BREAK (pre @ (CHR 0x1D # ?body) @ post))
           = concat (split SECTION_BREAK pre) @ (CHR 0x1D # ?body) @ concat (split SECTION_BREAK post)"
      using free unfolding cmd by (rule strip_around [OF GS_not_in_marker])
    thus ?thesis using w by (simp add: submittedBytes_transmit cmd)
  qed
  from a b c d e f g i show ?thesis by blast
qed


lemma marker_starts_with_its_first_byte:
  assumes "sep \<noteq> []" "hd sep \<notin> set xs" "i < length xs"
  shows "take (length sep) (drop i (xs @ post)) \<noteq> sep"
proof
  assume eq: "take (length sep) (drop i (xs @ post)) = sep"
  have "sep ! 0 = take (length sep) (drop i (xs @ post)) ! 0" by (simp only: eq)
  also have "\<dots> = xs ! i" using assms(1,3) by (simp add: nth_append)
  finally have "hd sep = xs ! i" using assms(1) by (simp add: hd_conv_nth)
  thus False using assms(2,3) by simp
qed

lemma header_width_field:
  "of_char (buildRasterImageCommand bpr h payload m ! 4)
     + 256 * of_char (buildRasterImageCommand bpr h payload m ! 5) = bpr mod 65536"
  unfolding buildRasterImageCommand_chars by (simp add: le16)

lemma header_height_field:
  "of_char (buildRasterImageCommand bpr h payload m ! 6)
     + 256 * of_char (buildRasterImageCommand bpr h payload m ! 7) = h mod 65536"
  unfolding buildRasterImageCommand_chars by (simp add: le16)

text \<open>
  A one-pixel raster between the alignment codes, followed by a section break and a
  line of text, in the configured mode: two spool files, the command unchanged.
\<close>

theorem raster_command_emitted_witness:
  "submittedBytes (transmit
      \<lparr>writeThrows = (\<lambda>i. False), lpFails = (\<lambda>i. False), lpTime = (\<lambda>i. 20), timerLag = (\<lambda>i. 1)\<rparr>
      SLOW_PRINT_MODE
      (ALIGN_CENTER @ buildRasterImageCommand 1 1 [0x80] 0 @ ALIGN_LEFT @ [CHR 0x0A]
         @ SECTION_BREAK @ ''RUN'') 0)
     = ALIGN_CENTER @ buildRasterImageCommand 1 1 [0x80] 0 @ ALIGN_LEFT @ [CHR 0x0A] @ ''RUN''
   \<and> of_char (buildRasterImageCommand 1 1 [0x80] 0 ! 4)
        + 256 * of_char (buildRasterImageCommand 1 1 [0x80] 0 ! 5) = (1 :: nat)
   \<and> of_char (buildRasterImageCommand 1 1 [0x80] 0 ! 6)
        + 256 * of_char (buildRasterImageCommand 1 1 [0x80] 0 ! 7) = (1 :: nat)"
proof -
  let ?env = "\<lparr>writeThrows = (\<lambda>i. False), lpFails = (\<lambda>i. False), lpTime = (\<lambda>i. 20), timerLag = (\<lambda>i. 1)\<rparr>"
  let ?cmd = "buildRasterImageCommand 1 1 [0x80] 0"
  let ?post = "ALIGN_LEFT @ [CHR 0x0A] @ SECTION_BREAK @ ''RUN''"
  note T = raster_command_emitted [where bpr = 1 and h = 1 and payload = "[0x80]" and m = 0
      and env = ?env and mode = SLOW_PRINT_MODE and pre = ALIGN_CENTER and post = ?post and now = 0]
  have h1: "\<forall>k. \<not> writeThrows ?env k" by simp
  have ne: "SECTION_BREAK \<noteq> []" by (simp add: SECTION_BREAK_def)
  have hd: "hd SECTION_BREAK \<notin> set ?cmd"
    by code_simp
  have h2: "\<forall>i < length ?cmd. take (length SECTION_BREAK) (drop i (?cmd @ ?post)) \<noteq> SECTION_BREAK"
    using marker_starts_with_its_first_byte [OF ne hd] by blast
  have pre: "concat (split SECTION_BREAK ALIGN_CENTER) = ALIGN_CENTER" by code_simp
  have post: "concat (split SECTION_BREAK ?post) = ALIGN_LEFT @ [CHR 0x0A] @ ''RUN''" by code_simp
  from T [THEN conjunct2, THEN conjunct2, THEN conjunct2, THEN conjunct2, THEN conjunct2,
      THEN conjunct2, THEN conjunct2, rule_format, OF conjI, OF h1 h2]
  have a: "submittedBytes (transmit ?env SLOW_PRINT_MODE (ALIGN_CENTER @ ?cmd @ ?post) 0)
             = ALIGN_CENTER @ ?cmd @ ALIGN_LEFT @ [CHR 0x0A] @ ''RUN''"
    unfolding pre post by simp
  from T [THEN conjunct2, THEN conjunct2, THEN conjunct2, THEN conjunct2, THEN conjunct1]
  have b: "of_char (?cmd ! 4) + 256 * of_char (?cmd ! 5) = (1 :: nat)" by simp
  from T [THEN conjunct2, THEN conjunct2, THEN conjunct2, THEN conjunct2, THEN conjunct2, THEN conjunct1]
  have c: "of_char (?cmd ! 6) + 256 * of_char (?cmd ! 7) = (1 :: nat)" by simp
  from a b c show ?thesis by (intro conjI) simp_all
qed

text \<open>
  The claim fails as it is worded in two places. A raster of 65536 rows has the
  height field 0, not 65536. And a payload whose 13 bytes are those of the section
  marker (a raster of 104 by 1 pixels) never reaches the printer: the stream is cut
  there and the printer is sent the header alone, followed by the next control code.
\<close>

theorem raster_command_counterexample:
  "of_char (buildRasterImageCommand 1 65536 (replicate 65536 0) 0 ! 6)
     + 256 * of_char (buildRasterImageCommand 1 65536 (replicate 65536 0) 0 ! 7) \<noteq> (65536 :: nat)
   \<and> submittedBytes (transmit
        \<lparr>writeThrows = (\<lambda>i. False), lpFails = (\<lambda>i. False), lpTime = (\<lambda>i. 20), timerLag = (\<lambda>i. 1)\<rparr>
        SLOW_PRINT_MODE
        (ALIGN_CENTER
           @ buildRasterImageCommand 13 1
               [0x3C, 0x3C, 0x3C, 0x53, 0x45, 0x43, 0x54, 0x49, 0x4F, 0x4E, 0x3E, 0x3E, 0x3E] 0
           @ ALIGN_LEFT @ [CHR 0x0A]) 0)
      = ALIGN_CENTER
          @ take 8 (buildRasterImageCommand 13 1
               [0x3C, 0x3C, 0x3C, 0x53, 0x45, 0x43, 0x54, 0x49, 0x4F, 0x4E, 0x3E, 0x3E, 0x3E] 0)
          @ ALIGN_LEFT @ [CHR 0x0A]
   \<and> submittedBytes (transmit
        \<lparr>writeThrows = (\<lambda>i. False), lpFails = (\<lambda>i. False), lpTime = (\<lambda>i. 20), timerLag = (\<lambda>i. 1)\<rparr>
        SLOW_PRINT_MODE
        (ALIGN_CENTER
           @ buildRasterImageCommand 13 1
               [0x3C, 0x3C, 0x3C, 0x53, 0x45, 0x43, 0x54, 0x49, 0x4F, 0x4E, 0x3E, 0x3E, 0x3E] 0
           @ ALIGN_LEFT @ [CHR 0x0A]) 0)
      \<noteq> ALIGN_CENTER
          @ buildRasterImageCommand 13 1
               [0x3C, 0x3C, 0x3C, 0x53, 0x45, 0x43, 0x54, 0x49, 0x4F, 0x4E, 0x3E, 0x3E, 0x3E] 0
          @ ALIGN_LEFT @ [CHR 0x0A]"
proof -
  let ?env = "\<lparr>writeThrows = (\<lambda>i. False), lpFails = (\<lambda>i. False), lpTime = (\<lambda>i. 20), timerLag = (\<lambda>i. 1)\<rparr>"
  let ?payload = "[0x3C, 0x3C, 0x3C, 0x53, 0x45, 0x43, 0x54, 0x49, 0x4F, 0x4E, 0x3E, 0x3E, 0x3E] :: byte list"
  let ?cmd = "buildRasterImageCommand 13 1 ?payload 0"
  let ?hdr = "[CHR 0x1D, CHR ''v'', CHR ''0'', char_of (0 :: nat), char_of (13 :: nat), char_of (0 :: nat),
      char_of (1 :: nat), char_of (0 :: nat)]"
  have a: "of_char (buildRasterImageCommand 1 65536 (replicate 65536 0) 0 ! 6)
     + 256 * of_char (buildRasterImageCommand 1 65536 (replicate 65536 0) 0 ! 7) \<noteq> (65536 :: nat)"
    unfolding header_height_field by simp
  have pl: "bytesToBinaryString ?payload = SECTION_BREAK" by code_simp
  have cmd: "?cmd = ?hdr @ SECTION_BREAK"
    unfolding buildRasterImageCommand_chars pl by simp
  have "concat (split SECTION_BREAK (ALIGN_CENTER @ (?hdr @ SECTION_BREAK) @ ALIGN_LEFT @ [CHR 0x0A]))
          = ALIGN_CENTER @ ?hdr @ ALIGN_LEFT @ [CHR 0x0A]"
    by code_simp
  hence b: "submittedBytes (transmit ?env SLOW_PRINT_MODE (ALIGN_CENTER @ ?cmd @ ALIGN_LEFT @ [CHR 0x0A]) 0)
          = ALIGN_CENTER @ take 8 ?cmd @ ALIGN_LEFT @ [CHR 0x0A]"
    unfolding cmd by (simp add: submittedBytes_transmit)
  have "length (ALIGN_CENTER @ take 8 ?cmd @ ALIGN_LEFT @ [CHR 0x0A])
          \<noteq> length (ALIGN_CENTER @ ?cmd @ ALIGN_LEFT @ [CHR 0x0A])"
    unfolding cmd by (simp add: SECTION_BREAK_def)
  hence c: "ALIGN_CENTER @ take 8 ?cmd @ ALIGN_LEFT @ [CHR 0x0A]
          \<noteq> ALIGN_CENTER @ ?cmd @ ALIGN_LEFT @ [CHR 0x0A]"
    by (metis (no_types))
  from a b c show ?thesis by (simp only: simp_thms)
qed

section \<open>Verification: the print service\<close>

lemma receipt_never_throws:
  "createAndPrintActivityReceipt tryBlock activity route photos = Returned ()"
  by (simp add: createAndPrintActivityReceipt_def split: outcome.splits)

lemma getProp_not_null: "dat \<noteq> JNull \<Longrightarrow> getProp dat k = Returned (member dat k)"
  by (cases dat) simp_all

lemma handlePrint_parse_error:
  "handlePrint tryBlock (Threw msg) = \<lparr>status = 500, body = JObj [(''error'', JStr msg)]\<rparr>"
  by (simp add: handlePrint_def)

lemma handlePrint_null:
  "status (handlePrint tryBlock (Returned JNull)) = 500"
  by (simp add: handlePrint_def)

lemma handlePrint_value:
  assumes "dat \<noteq> JNull"
  shows "handlePrint tryBlock (Returned dat) =
     (if \<not> truthy (member dat ''activity'')
      then \<lparr>status = 400, body = JObj [(''error'', JStr ''Activity data is required'')]\<rparr>
      else if logThrows (the (member dat ''activity''))
      then \<lparr>status = 500,
            body = JObj [(''error'', JStr ''Cannot convert object to primitive value'')]\<rparr>
      else \<lparr>status = 200,
            body = JObj [(''success'', JBool True), (''message'', JStr ''Print job sent'')]\<rparr>)"
  by (simp add: handlePrint_def getProp_not_null [OF assms] receipt_never_throws)

text \<open>
  Claim C10, as the code has it. Whatever happens inside the receipt pipeline, also
  when it throws, \<^verbatim>\<open>createAndPrintActivityReceipt\<close> returns normally. So every request
  whose body parses, whose \<open>activity\<close> member is truthy (any object, such as an
  activity record, is) and whose log line can be written is answered with status 200
  and \<open>{success: true, message: "Print job sent"}\<close>. The status is 500 exactly when
  \<^verbatim>\<open>JSON.parse\<close> throws, when the parsed body is \<^verbatim>\<open>null\<close>, which cannot be
  destructured, or when the name (or else the id) of the activity cannot be converted
  to a string for the log line; it is 400 exactly when the member is missing or falsy.
\<close>

theorem print_service_status:
  "createAndPrintActivityReceipt tryBlock activity route photos = Returned ()
   \<and> (\<forall>dat a. parsed = Returned dat \<and> getProp dat ''activity'' = Returned (Some a)
          \<and> truthy (Some a) \<and> \<not> logThrows a
        \<longrightarrow> handlePrint tryBlock parsed =
              \<lparr>status = 200,
               body = JObj [(''success'', JBool True), (''message'', JStr ''Print job sent'')]\<rparr>)
   \<and> (status (handlePrint tryBlock parsed) = 500
        \<longleftrightarrow> (\<exists>msg. parsed = Threw msg) \<or> parsed = Returned JNull
            \<or> (\<exists>dat a. parsed = Returned dat \<and> getProp dat ''activity'' = Returned (Some a)
                  \<and> truthy (Some a) \<and> logThrows a))
   \<and> (status (handlePrint tryBlock parsed) = 400
        \<longleftrightarrow> (\<exists>dat a. parsed = Returned dat \<and> getProp dat ''activity'' = Returned a \<and> \<not> truthy a))"
proof (intro conjI allI impI)
  show "createAndPrintActivityReceipt tryBlock activity route photos = Returned ()"
    by (rule receipt_never_throws)
next
  fix dat a
  assume h: "parsed = Returned dat \<and> getProp dat ''activity'' = Returned (Some a)
          \<and> truthy (Some a) \<and> \<not> logThrows a"
  hence n: "dat \<noteq> JNull" by auto
  with h have "member dat ''activity'' = Some a" by (simp add: getProp_not_null)
  with handlePrint_value [OF n, of tryBlock] h
  show "handlePrint tryBlock parsed =
              \<lparr>status = 200,
               body = JObj [(''success'', JBool True), (''message'', JStr ''Print job sent'')]\<rparr>"
    by simp
next
  show "status (handlePrint tryBlock parsed) = 500
        \<longleftrightarrow> (\<exists>msg. parsed = Threw msg) \<or> parsed = Returned JNull
            \<or> (\<exists>dat a. parsed = Returned dat \<and> getProp dat ''activity'' = Returned (Some a)
                  \<and> truthy (Some a) \<and> logThrows a)"
  proof (cases parsed)
    case (Threw msg)
    thus ?thesis by (simp add: handlePrint_parse_error)
  next
    case (Returned dat)
    show ?thesis
    proof (cases "dat = JNull")
      case True
      with Returned show ?thesis by (simp add: handlePrint_null)
    next
      case False
      show ?thesis
      proof (cases "member dat ''activity''")
        case None
        with Returned False show ?thesis
          by (simp add: handlePrint_value getProp_not_null)
      next
        case (Some a)
        with Returned False show ?thesis
          by (simp add: handlePrint_value getProp_not_null)
      qed
    qed
  qed
next
  show "status (handlePrint tryBlock parsed) = 400
        \<longleftrightarrow> (\<exists>dat a. parsed = Returned dat \<and> getProp dat ''activity'' = Returned a \<and> \<not> truthy a)"
  proof (cases parsed)
    case (Threw msg)
    thus ?thesis by (simp add: handlePrint_parse_error)
  next
    case (Returned dat)
    show ?thesis
    proof (cases "dat = JNull")
      case True
      with Returned show ?thesis by (simp add: handlePrint_null)
    next
      case False
      with Returned show ?thesis
        by (simp add: handlePrint_value getProp_not_null)
    qed
  qed
qed

text \<open>A request for an activity, answered with 200 although the pipeline threw.\<close>

theorem print_service_status_witness:
  "handlePrint (\<lambda>activity route photos. Threw ''lp: not found'')
     (Returned (JObj [(''activity'', JObj [(''id'', JNum 1), (''name'', JStr ''Morning Run'')])]))
   = \<lparr>status = 200,
      body = JObj [(''success'', JBool True), (''message'', JStr ''Print job sent'')]\<rparr>"
proof -
  let ?a = "JObj [(''id'', JNum 1), (''name'', JStr ''Morning Run'')]"
  let ?dat = "JObj [(''activity'', ?a)]"
  have h: "Returned ?dat = Returned ?dat \<and> getProp ?dat ''activity'' = Returned (Some ?a)
          \<and> truthy (Some ?a) \<and> \<not> logThrows ?a"
    by (simp add: logThrows_def requestLabel_def)
  from print_service_status
    [of "\<lambda>activity route photos. Threw ''lp: not found''" ?a None None "Returned ?dat",
      THEN conjunct2, THEN conjunct1, rule_format, OF h]
  show ?thesis .
qed

text \<open>
  The claim for every body that contains an \<open>activity\<close> member fails when the member is
  falsy: the body \<open>{"activity": 0}\<close> is answered with 400.
\<close>

theorem falsy_activity_counterexample:
  "getProp (JObj [(''activity'', JNum 0)]) ''activity'' = Returned (Some (JNum 0))
   \<and> status (handlePrint (\<lambda>activity route photos. Returned ())
               (Returned (JObj [(''activity'', JNum 0)]))) \<noteq> 200"
  by (simp add: handlePrint_value)

text \<open>
  A body whose activity has the name \<open>{"toString": null}\<close>: the log line throws, and the
  request is answered with 500 before the pipeline starts.
\<close>

lemma unprintable_name_500:
  "status (handlePrint tryBlock
     (Returned (JObj [(''activity'', JObj [(''name'', JObj [(''toString'', JNull)])])]))) = 500"
  by (simp add: handlePrint_value logThrows_def requestLabel_def)

end
